theory Spec2Isabelle
  imports Main "HOL-Library.Word" "HOL-Library.Multiset"
begin

unbundle bit_operations_syntax

section \<open>IPC server: per-client event queue\<close>

text \<open>
  The compositor events a client can be sent (\<open>union xrt_compositor_event\<close>): a
  state change carries the \<open>visible\<close> and \<open>focused\<close> flags, an overlay change the
  \<open>visible\<close> flag of the primary session.
\<close>

datatype xrt_compositor_event =
    XRT_COMPOSITOR_EVENT_NONE
  | XRT_COMPOSITOR_EVENT_STATE_CHANGE bool bool
  | XRT_COMPOSITOR_EVENT_OVERLAY_CHANGE bool

record ipc_queued_event =
  timestamp :: "64 word"
  pending :: bool
  event :: xrt_compositor_event

definition UINT64_MAX :: "64 word" where
  "UINT64_MAX = - 1"

text \<open>
  \<open>find_event_slot\<close>: the loop over \<open>i = 0 ..< IPC_EVENT_QUEUE_SIZE\<close>. The queue is the
  list \<open>qes\<close>, its length the constant \<open>IPC_EVENT_QUEUE_SIZE\<close> (declared in a header
  that is not part of the sources). The loop state is the pair of locals
  \<open>oldest_event_timestamp\<close> and \<open>oldest_event_index\<close>. The source compares
  \<open>cs->queued_events->timestamp\<close>, which is the timestamp of slot 0, and never assigns
  \<open>oldest_event_timestamp\<close>.
\<close>

function find_event_slot_loop ::
  "ipc_queued_event list \<Rightarrow> nat \<Rightarrow> 64 word \<Rightarrow> nat \<Rightarrow> nat" where
  "find_event_slot_loop qes i oldest_event_timestamp oldest_event_index =
     (if i < length qes then
        (let oldest_event_index' =
               (if timestamp (qes ! 0) < oldest_event_timestamp then i
                else oldest_event_index)
         in if \<not> pending (qes ! i) then i
            else find_event_slot_loop qes (Suc i) oldest_event_timestamp oldest_event_index')
      else oldest_event_index)"
  by pat_completeness auto
termination
  by (relation "measure (\<lambda>(qes, i, t, k). length qes - i)") auto

definition find_event_slot :: "ipc_queued_event list \<Rightarrow> nat" where
  "find_event_slot qes = find_event_slot_loop qes 0 UINT64_MAX 0"


section \<open>IPC server: client and server state\<close>

datatype xrt_layer_type =
    XRT_LAYER_STEREO_PROJECTION
  | XRT_LAYER_QUAD
  | XRT_LAYER_OTHER

record ipc_layer_entry =
  xdev_id :: nat
  swapchain_ids :: "nat list"
  layer_type :: xrt_layer_type

text \<open>
  \<open>struct ipc_client_state\<close>, with the fields of the nested \<open>client_state\<close> and
  \<open>render_state\<close> that the server code reads or writes. \<open>xscs\<close> holds for each
  swapchain slot whether its pointer is non-NULL; \<open>layers\<close> are the first
  \<open>num_layers\<close> entries of \<open>render_state.layers\<close>.
\<close>

record ipc_client_state =
  server_thread_index :: int
  session_active :: bool
  session_visible :: bool
  session_focused :: bool
  session_overlay :: bool
  z_order :: "32 word"
  queued_events :: "ipc_queued_event list"
  xscs :: "bool list"
  layers :: "ipc_layer_entry list"

text \<open>
  \<open>struct ipc_server\<close>: \<open>threads\<close> is the array of \<open>IPC_MAX_CLIENTS\<close> client slots
  (the constant is the length of the list), \<open>xdevs\<close> holds for each device slot whether
  its pointer is non-NULL.
\<close>

record ipc_server =
  threads :: "ipc_client_state list"
  xdevs :: "bool list"
  active_client_index :: int
  last_active_client_index :: int
  current_slot_index :: nat

datatype ipc_error = OUT_OF_BOUNDS

text \<open>Reading \<open>arr[i]\<close> for a C \<open>int\<close> index: \<open>None\<close> outside the array.\<close>

definition array_at :: "'a list \<Rightarrow> int \<Rightarrow> 'a option" where
  "array_at xs i = (if 0 \<le> i \<and> i < int (length xs) then Some (xs ! nat i) else None)"

subsection \<open>Queueing events\<close>

text \<open>
  Both functions take the value \<open>ts\<close> that \<open>os_monotonic_get_ns\<close> returns at the call.
  The slot is written in place; the queue has at least one slot.
\<close>

definition transition_overlay_visibility ::
  "64 word \<Rightarrow> bool \<Rightarrow> ipc_client_state \<Rightarrow> ipc_client_state" where
  "transition_overlay_visibility ts visible cs =
     (let event_slot = find_event_slot (queued_events cs);
          qe = \<lparr>timestamp = ts, pending = True,
                event = XRT_COMPOSITOR_EVENT_OVERLAY_CHANGE visible\<rparr>
      in cs\<lparr>queued_events := (queued_events cs)[event_slot := qe]\<rparr>)"

definition send_client_state :: "64 word \<Rightarrow> ipc_client_state \<Rightarrow> ipc_client_state" where
  "send_client_state ts ics =
     (let event_slot = find_event_slot (queued_events ics);
          qe = \<lparr>timestamp = ts, pending = True,
                event = XRT_COMPOSITOR_EVENT_STATE_CHANGE
                          (session_visible ics) (session_focused ics)\<rparr>
      in ics\<lparr>queued_events := (queued_events ics)[event_slot := qe]\<rparr>)"

subsection \<open>Server state updates\<close>

text \<open>
  \<open>handle_overlay_client_events\<close>: \<open>ts1\<close> and \<open>ts2\<close> are the clock values of the first
  and the second transition queued by one call.
\<close>

definition handle_overlay_client_events ::
  "64 word \<Rightarrow> 64 word \<Rightarrow> ipc_client_state \<Rightarrow> int \<Rightarrow> int \<Rightarrow> ipc_client_state" where
  "handle_overlay_client_events ts1 ts2 ics active_id prev_active_id =
     (if session_overlay ics then
        (let ics1 = (if active_id \<ge> 0 \<and> prev_active_id \<ge> 0
                     then transition_overlay_visibility ts2 True
                            (transition_overlay_visibility ts1 False ics)
                     else ics);
             ics2 = (if active_id \<ge> 0 \<and> prev_active_id < 0
                     then transition_overlay_visibility ts1 True ics1 else ics1);
             ics3 = (if active_id < 0 \<and> prev_active_id \<ge> 0
                     then transition_overlay_visibility ts1 False ics2 else ics2)
         in ics3)
      else ics)"

definition handle_focused_client_events ::
  "64 word \<Rightarrow> ipc_client_state \<Rightarrow> int \<Rightarrow> int \<Rightarrow> ipc_client_state" where
  "handle_focused_client_events ts ics active_id prev_active_id =
     (if active_id = - 1 \<and> prev_active_id = - 1 then ics
      else
        (let ics1 = ics\<lparr>session_focused := False, session_visible := False\<rparr>
         in if active_id \<ge> 0 then
              (let ics2 = (if session_overlay ics1
                           then ics1\<lparr>session_visible := True\<rparr> else ics1);
                   ics3 = (if server_thread_index ics2 = active_id
                           then ics2\<lparr>session_visible := True, session_focused := True\<rparr>
                           else ics2)
               in send_client_state ts ics3)
            else if session_overlay ics1 then
              send_client_state ts
                (ics1\<lparr>session_focused := False, session_visible := False\<rparr>)
            else ics1))"

definition init_server_state :: "ipc_server \<Rightarrow> ipc_server" where
  "init_server_state s =
     s\<lparr>active_client_index := - 1,
       last_active_client_index := - 1,
       current_slot_index := 0,
       threads := map (\<lambda>cs. cs\<lparr>server_thread_index := - 1\<rparr>) (threads s)\<rparr>"

text \<open>
  The loop of \<open>update_server_state\<close> that looks for a fallback application: its state
  is the pair (\<open>set_idle\<close>, \<open>fallback_active_application\<close>), \<open>i\<close> the loop counter.
  There is no \<open>break\<close>: every matching client overwrites the pair.
\<close>

fun fallback_loop :: "ipc_client_state list \<Rightarrow> nat \<Rightarrow> bool \<times> int \<Rightarrow> bool \<times> int" where
  "fallback_loop [] i acc = acc"
| "fallback_loop (ics # rest) i (set_idle, fallback_active_application) =
     fallback_loop rest (Suc i)
       (if session_overlay ics = False \<and> server_thread_index ics \<ge> 0 \<and> session_active ics
        then (False, int i)
        else (set_idle, fallback_active_application))"

text \<open>
  The last loop of \<open>update_server_state\<close>, over the connected clients. \<open>clk i k\<close> is
  the value of the monotonic clock at the \<open>k\<close>-th place (0: the state event, 1 and 2:
  the overlay events) where client \<open>i\<close> may be sent an event.
\<close>

fun events_loop ::
  "(nat \<Rightarrow> nat \<Rightarrow> 64 word) \<Rightarrow> int \<Rightarrow> int \<Rightarrow> nat \<Rightarrow> ipc_client_state list
     \<Rightarrow> ipc_client_state list" where
  "events_loop clk active_id prev_active_id i [] = []"
| "events_loop clk active_id prev_active_id i (ics # rest) =
     (if server_thread_index ics \<ge> 0
      then handle_overlay_client_events (clk i 1) (clk i 2)
             (handle_focused_client_events (clk i 0) ics active_id prev_active_id)
             active_id prev_active_id
      else ics)
     # events_loop clk active_id prev_active_id (Suc i) rest"

text \<open>
  \<open>update_server_state\<close>. The two reads of \<open>s->threads[s->active_client_index]\<close> are
  array accesses with a signed index; an index outside the array is the error
  \<open>OUT_OF_BOUNDS\<close>. The second read happens before the condition that tests
  \<open>s->active_client_index >= 0\<close> is evaluated (the address is taken at the declaration of
  \<open>ics\<close>, and \<open>session_overlay\<close> is the first operand of the condition).
\<close>

definition update_server_state ::
  "(nat \<Rightarrow> nat \<Rightarrow> 64 word) \<Rightarrow> ipc_server \<Rightarrow> ipc_error + ipc_server" where
  "update_server_state clk s =
     (case (if active_client_index s \<ge> 0 then
              (case array_at (threads s) (active_client_index s) of
                 None \<Rightarrow> Inl OUT_OF_BOUNDS
               | Some ics \<Rightarrow>
                   Inr (session_active ics \<and>
                        active_client_index s = last_active_client_index s))
            else Inr False) of
        Inl e \<Rightarrow> Inl e
      | Inr True \<Rightarrow> Inr s
      | Inr False \<Rightarrow>
          (let (set_idle, fallback_active_application) =
                 fallback_loop (threads s) 0 (True, - 1)
           in case array_at (threads s) (active_client_index s) of
                None \<Rightarrow> Inl OUT_OF_BOUNDS
              | Some ics \<Rightarrow>
                  (let s1 = (if \<not> (session_overlay ics = False \<and>
                                     active_client_index s \<ge> 0 \<and>
                                     session_active ics)
                             then s\<lparr>active_client_index := fallback_active_application\<rparr>
                             else s);
                       s2 = (if set_idle then s1\<lparr>active_client_index := - 1\<rparr> else s1);
                       s3 = s2\<lparr>threads :=
                                 events_loop clk (active_client_index s2)
                                   (last_active_client_index s2) 0 (threads s2)\<rparr>
                   in Inr (s3\<lparr>last_active_client_index := active_client_index s3\<rparr>))))"

subsection \<open>Layer dispatch in z order\<close>

record z_sort_data =
  zd_index :: int
  zd_z_order :: "32 word"

definition INT32_MIN :: "32 word" where
  "INT32_MIN = 0x80000000"

text \<open>
  \<open>_overlay_sort_func\<close>, the comparison handed to \<open>qsort\<close>: the fields are
  \<open>int32_t\<close> and are compared as signed values.
\<close>

definition overlay_sort_func :: "z_sort_data \<Rightarrow> z_sort_data \<Rightarrow> int" where
  "overlay_sort_func oa ob =
     (if sint (zd_z_order oa) < sint (zd_z_order ob) then - 1
      else if sint (zd_z_order oa) > sint (zd_z_order ob) then 1
      else 0)"

text \<open>
  The first loop of \<open>_update_layers\<close>: one entry per client slot, \<open>(-1, -1)\<close> unless
  the session is an active overlay. \<open>i\<close> is the index of the first slot of the list.
\<close>

fun fill_z_data :: "nat \<Rightarrow> ipc_client_state list \<Rightarrow> z_sort_data list" where
  "fill_z_data i [] = []"
| "fill_z_data i (ics # rest) =
     (if session_overlay ics \<and> session_active ics
      then \<lparr>zd_index = int i, zd_z_order = z_order ics\<rparr>
      else \<lparr>zd_index = - 1, zd_z_order = - 1\<rparr>)
     # fill_z_data (Suc i) rest"

text \<open>
  The primary application is written over its own entry, with the smallest \<open>z_order\<close>.
  An index beyond the array would write outside \<open>z_data\<close>.
\<close>

definition place_primary :: "z_sort_data list \<Rightarrow> int \<Rightarrow> ipc_error + z_sort_data list" where
  "place_primary z_data active =
     (if active \<ge> 0 then
        (if active < int (length z_data)
         then Inr (z_data[nat active := \<lparr>zd_index = active, zd_z_order = INT32_MIN\<rparr>])
         else Inl OUT_OF_BOUNDS)
      else Inr z_data)"

text \<open>
  The array after \<open>qsort\<close>. The C library's \<open>qsort\<close> is not part of the sources, and
  the C standard leaves the order of elements that compare equal open: \<open>qs\<close> is what
  \<open>qsort\<close> with \<open>_overlay_sort_func\<close> does to the array.
\<close>

definition sorted_z_data ::
  "(z_sort_data list \<Rightarrow> z_sort_data list) \<Rightarrow> ipc_server \<Rightarrow> ipc_error + z_sort_data list" where
  "sorted_z_data qs s =
     (case place_primary (fill_z_data 0 (threads s)) (active_client_index s) of
        Inl e \<Rightarrow> Inl e
      | Inr z_data \<Rightarrow> Inr (qs z_data))"

text \<open>
  The calls made to the compositor: \<open>xrt_comp_layer_stereo_projection\<close> and
  \<open>xrt_comp_layer_quad\<close>, with the client whose swapchains are used, the device slot
  and the swapchain slots.
\<close>

datatype layer_call =
    LAYER_STEREO_PROJECTION nat nat nat nat
  | LAYER_QUAD nat nat nat

text \<open>
  \<open>_update_projection_layer\<close> and \<open>_update_quad_layer\<close> for client \<open>ci\<close>: \<open>None\<close> when
  the function returns \<open>false\<close>, the call it makes otherwise.
\<close>

definition update_projection_layer ::
  "ipc_server \<Rightarrow> nat \<Rightarrow> ipc_client_state \<Rightarrow> ipc_layer_entry \<Rightarrow> ipc_error + layer_call option" where
  "update_projection_layer s ci ics layer =
     (case (array_at (swapchain_ids layer) 0, array_at (swapchain_ids layer) 1) of
        (Some lxsci, Some rxsci) \<Rightarrow>
          (case (array_at (xdevs s) (int (xdev_id layer)),
                 array_at (xscs ics) (int lxsci), array_at (xscs ics) (int rxsci)) of
             (Some xdev, Some lxcs, Some rxcs) \<Rightarrow>
               if \<not> lxcs \<or> \<not> rxcs then Inr None
               else if \<not> xdev then Inr None
               else Inr (Some (LAYER_STEREO_PROJECTION ci (xdev_id layer) lxsci rxsci))
           | _ \<Rightarrow> Inl OUT_OF_BOUNDS)
      | _ \<Rightarrow> Inl OUT_OF_BOUNDS)"

definition update_quad_layer ::
  "ipc_server \<Rightarrow> nat \<Rightarrow> ipc_client_state \<Rightarrow> ipc_layer_entry \<Rightarrow> ipc_error + layer_call option" where
  "update_quad_layer s ci ics layer =
     (case array_at (swapchain_ids layer) 0 of
        Some sci \<Rightarrow>
          (case (array_at (xdevs s) (int (xdev_id layer)), array_at (xscs ics) (int sci)) of
             (Some xdev, Some xcs) \<Rightarrow>
               if \<not> xcs then Inr None
               else if \<not> xdev then Inr None
               else Inr (Some (LAYER_QUAD ci (xdev_id layer) sci))
           | _ \<Rightarrow> Inl OUT_OF_BOUNDS)
      | _ \<Rightarrow> Inl OUT_OF_BOUNDS)"

text \<open>
  The inner loop over the layers of one client, and the outer loop over the sorted
  array. The result is the value \<open>_update_layers\<close> returns with the calls made up to
  then; \<open>acc\<close> holds the calls made so far.
\<close>

fun client_layers_loop ::
  "ipc_server \<Rightarrow> nat \<Rightarrow> ipc_client_state \<Rightarrow> ipc_layer_entry list \<Rightarrow> layer_call list
     \<Rightarrow> ipc_error + bool \<times> layer_call list" where
  "client_layers_loop s ci ics [] acc = Inr (True, acc)"
| "client_layers_loop s ci ics (layer # rest) acc =
     (case layer_type layer of
        XRT_LAYER_STEREO_PROJECTION \<Rightarrow>
          (case update_projection_layer s ci ics layer of
             Inl e \<Rightarrow> Inl e
           | Inr None \<Rightarrow> Inr (False, acc)
           | Inr (Some c) \<Rightarrow> client_layers_loop s ci ics rest (acc @ [c]))
      | XRT_LAYER_QUAD \<Rightarrow>
          (case update_quad_layer s ci ics layer of
             Inl e \<Rightarrow> Inl e
           | Inr None \<Rightarrow> Inr (False, acc)
           | Inr (Some c) \<Rightarrow> client_layers_loop s ci ics rest (acc @ [c]))
      | XRT_LAYER_OTHER \<Rightarrow> client_layers_loop s ci ics rest acc)"

fun render_loop ::
  "ipc_server \<Rightarrow> z_sort_data list \<Rightarrow> layer_call list \<Rightarrow> ipc_error + bool \<times> layer_call list" where
  "render_loop s [] acc = Inr (True, acc)"
| "render_loop s (zd # rest) acc =
     (if zd_index zd < 0 then render_loop s rest acc
      else
        (case array_at (threads s) (zd_index zd) of
           None \<Rightarrow> Inl OUT_OF_BOUNDS
         | Some ics \<Rightarrow>
             (case client_layers_loop s (nat (zd_index zd)) ics (layers ics) acc of
                Inl e \<Rightarrow> Inl e
              | Inr (False, acc') \<Rightarrow> Inr (False, acc')
              | Inr (True, acc') \<Rightarrow> render_loop s rest acc')))"

definition update_layers ::
  "(z_sort_data list \<Rightarrow> z_sort_data list) \<Rightarrow> ipc_server \<Rightarrow> ipc_error + bool \<times> layer_call list" where
  "update_layers qs s =
     (case sorted_z_data qs s of
        Inl e \<Rightarrow> Inl e
      | Inr z_data \<Rightarrow> render_loop s z_data [])"

text \<open>
  The client indices of the entries of the sorted array that are not skipped (index
  not negative), in the order of the array. The outer loop of \<open>_update_layers\<close>
  walks the array in this order; it ends early, with \<open>false\<close>, at the first client
  that has an invalid layer, so the clients it dispatches are a prefix of this list.
\<close>

definition sorted_clients ::
  "(z_sort_data list \<Rightarrow> z_sort_data list) \<Rightarrow> ipc_server \<Rightarrow> ipc_error + nat list" where
  "sorted_clients qs s =
     (case sorted_z_data qs s of
        Inl e \<Rightarrow> Inl e
      | Inr z_data \<Rightarrow> Inr (map (\<lambda>zd. nat (zd_index zd)) (filter (\<lambda>zd. \<not> zd_index zd < 0) z_data)))"

text \<open>
  What \<open>qsort\<close> guarantees for the comparison function above: the result is a
  rearrangement of the array in which no element is followed by a smaller one.
\<close>

definition qsort_spec :: "(z_sort_data list \<Rightarrow> z_sort_data list) \<Rightarrow> bool" where
  "qsort_spec qs =
     (\<forall>xs. mset (qs xs) = mset xs \<and>
           sorted_wrt (\<lambda>a b. overlay_sort_func a b \<le> 0) (qs xs))"

text \<open>A stable sort of the array, one of the behaviours \<open>qsort\<close> may have.\<close>

definition stable_qsort :: "z_sort_data list \<Rightarrow> z_sort_data list" where
  "stable_qsort xs = sort_key (\<lambda>zd. sint (zd_z_order zd)) xs"

text \<open>
  The \<open>z\<close> value a client is sorted by: \<open>INT32_MIN\<close> for the active primary, the
  client's \<open>z_order\<close> otherwise; and the clients that take part: the active overlays
  and the active primary.
\<close>

definition effective_z :: "ipc_server \<Rightarrow> nat \<Rightarrow> int" where
  "effective_z s i =
     (if int i = active_client_index s then sint INT32_MIN
      else sint (z_order (threads s ! i)))"

definition rendered_client :: "ipc_server \<Rightarrow> nat \<Rightarrow> bool" where
  "rendered_client s i =
     (int i = active_client_index s \<or>
      (session_overlay (threads s ! i) \<and> session_active (threads s ! i)))"

text \<open>
  The entry of client slot \<open>i\<close> in the array that is handed to \<open>qsort\<close>, as the
  first loop and the placement of the primary leave it.
\<close>

definition z_entry :: "ipc_server \<Rightarrow> nat \<Rightarrow> z_sort_data" where
  "z_entry s i =
     (if int i = active_client_index s
      then \<lparr>zd_index = active_client_index s, zd_z_order = INT32_MIN\<rparr>
      else if session_overlay (threads s ! i) \<and> session_active (threads s ! i)
      then \<lparr>zd_index = int i, zd_z_order = z_order (threads s ! i)\<rparr>
      else \<lparr>zd_index = - 1, zd_z_order = - 1\<rparr>)"

text \<open>
  The calls that the layers of client \<open>i\<close> give rise to, up to the first invalid
  layer if there is one.
\<close>

definition client_calls :: "ipc_server \<Rightarrow> nat \<Rightarrow> layer_call list" where
  "client_calls s i =
     (case client_layers_loop s i (threads s ! i) (layers (threads s ! i)) [] of
        Inl e \<Rightarrow> []
      | Inr (ok, cs) \<Rightarrow> cs)"

subsection \<open>Sample server states\<close>

text \<open>
  A client slot with a one-slot, empty event queue and no layers; the arguments are
  the slot's \<open>server_thread_index\<close>, \<open>session_active\<close>, \<open>session_overlay\<close> and
  \<open>z_order\<close>.
\<close>

definition sample_client :: "int \<Rightarrow> bool \<Rightarrow> bool \<Rightarrow> 32 word \<Rightarrow> ipc_client_state" where
  "sample_client sti act ov z =
     \<lparr>server_thread_index = sti, session_active = act, session_visible = False,
      session_focused = False, session_overlay = ov, z_order = z,
      queued_events = [\<lparr>timestamp = 0, pending = False, event = XRT_COMPOSITOR_EVENT_NONE\<rparr>],
      xscs = [], layers = []\<rparr>"

definition sample_server :: "ipc_client_state list \<Rightarrow> int \<Rightarrow> int \<Rightarrow> ipc_server" where
  "sample_server ths active last_active =
     \<lparr>threads = ths, xdevs = [], active_client_index = active,
      last_active_client_index = last_active, current_slot_index = 0\<rparr>"

definition pending_event :: "64 word \<Rightarrow> ipc_queued_event" where
  "pending_event ts = \<lparr>timestamp = ts, pending = True, event = XRT_COMPOSITOR_EVENT_NONE\<rparr>"

text \<open>
  A client slot like \<open>sample_client\<close> that has one swapchain and submits one quad
  layer on device 0, and a server with one device.
\<close>

definition sample_quad_client :: "int \<Rightarrow> bool \<Rightarrow> bool \<Rightarrow> 32 word \<Rightarrow> ipc_client_state" where
  "sample_quad_client sti act ov z =
     (sample_client sti act ov z)
       \<lparr>xscs := [True],
        layers := [\<lparr>xdev_id = 0, swapchain_ids = [0], layer_type = XRT_LAYER_QUAD\<rparr>]\<rparr>"

definition sample_layer_server :: "ipc_client_state list \<Rightarrow> int \<Rightarrow> ipc_server" where
  "sample_layer_server ths active = (sample_server ths active active)\<lparr>xdevs := [True]\<rparr>"

section \<open>OpenXR session: begin frame, end session, request exit\<close>

datatype XrSessionState =
    XR_SESSION_STATE_UNKNOWN
  | XR_SESSION_STATE_IDLE
  | XR_SESSION_STATE_READY
  | XR_SESSION_STATE_SYNCHRONIZED
  | XR_SESSION_STATE_VISIBLE
  | XR_SESSION_STATE_FOCUSED
  | XR_SESSION_STATE_STOPPING
  | XR_SESSION_STATE_LOSS_PENDING
  | XR_SESSION_STATE_EXITING

datatype XrResult =
    XR_SUCCESS
  | XR_SESSION_LOSS_PENDING
  | XR_FRAME_DISCARDED
  | XR_ERROR_CALL_ORDER_INVALID
  | XR_ERROR_SESSION_NOT_RUNNING
  | XR_ERROR_SESSION_NOT_STOPPING
  | XR_ERROR_INSTANCE_LOST

datatype xrt_result =
    XRT_SUCCESS
  | XRT_ERROR_IPC_FAILURE
  | XRT_ERROR_OTHER

text \<open>
  The compositor behind a session is an external object with a table of entry points.
  The model keeps, for each entry point the session code calls, the result it returns,
  and the log of the calls it has received.
\<close>

datatype xc_call =
    DISCARD_FRAME int
  | BEGIN_FRAME int
  | END_SESSION

record xrt_compositor =
  discard_frame :: "int \<Rightarrow> xrt_result"
  begin_frame :: "int \<Rightarrow> xrt_result"
  end_session :: xrt_result
  calls :: "xc_call list"

definition xrt_comp_discard_frame ::
  "xrt_compositor \<Rightarrow> int \<Rightarrow> xrt_result \<times> xrt_compositor" where
  "xrt_comp_discard_frame xc frame_id =
     (discard_frame xc frame_id, xc\<lparr>calls := calls xc @ [DISCARD_FRAME frame_id]\<rparr>)"


definition xrt_comp_end_session :: "xrt_compositor \<Rightarrow> xrt_result \<times> xrt_compositor" where
  "xrt_comp_end_session xc = (end_session xc, xc\<lparr>calls := calls xc @ [END_SESSION]\<rparr>)"

datatype oxr_event = XrEventDataSessionStateChanged XrSessionState

text \<open>
  \<open>struct oxr_session\<close>, with the fields the three functions use. \<open>compositor\<close> is
  \<open>None\<close> for the NULL pointer (a headless session); \<open>frame_id_waited\<close> and
  \<open>frame_id_begun\<close> are \<open>frame_id.waited\<close> and \<open>frame_id.begun\<close>; \<open>sem\<close> is the count
  of the begin/wait semaphore; \<open>events\<close> is the queue the session's events are pushed
  to.
\<close>

record oxr_session =
  compositor :: "xrt_compositor option"
  state :: XrSessionState
  has_begun :: bool
  exiting :: bool
  has_ended_once :: bool
  frame_started :: bool
  frame_id_waited :: int
  frame_id_begun :: int
  active_wait_frames :: int
  sem :: nat
  events :: "oxr_event list"

definition is_running :: "oxr_session \<Rightarrow> bool" where
  "is_running sess = has_begun sess"

text \<open>
  Modelled from the spec: \<open>oxr_event_push_XrEventDataSessionStateChanged\<close> is not in
  the sources. The spec says that every transition enqueues a state-change event; the
  push appends the event to the queue.
\<close>

definition oxr_event_push_XrEventDataSessionStateChanged ::
  "oxr_session \<Rightarrow> XrSessionState \<Rightarrow> oxr_session" where
  "oxr_event_push_XrEventDataSessionStateChanged sess st =
     sess\<lparr>events := events sess @ [XrEventDataSessionStateChanged st]\<rparr>"

definition oxr_session_change_state :: "oxr_session \<Rightarrow> XrSessionState \<Rightarrow> oxr_session" where
  "oxr_session_change_state sess st =
     (oxr_event_push_XrEventDataSessionStateChanged sess st)\<lparr>state := st\<rparr>"

text \<open>
  \<open>oxr_session_success_result\<close> is declared in a header that is not in the sources; the
  functions below take it as the parameter \<open>success_result\<close>.

  \<open>oxr_session_end\<close>. The results of the two \<open>xrt_comp_discard_frame\<close> calls are not
  looked at; \<open>CALL_CHK\<close> returns \<open>XR_ERROR_INSTANCE_LOST\<close> when
  \<open>xrt_comp_end_session\<close> reports an IPC failure.
\<close>

definition oxr_session_end ::
  "(oxr_session \<Rightarrow> XrResult) \<Rightarrow> oxr_session \<Rightarrow> XrResult \<times> oxr_session" where
  "oxr_session_end success_result sess =
     (if \<not> is_running sess then (XR_ERROR_SESSION_NOT_RUNNING, sess)
      else if state sess \<noteq> XR_SESSION_STATE_STOPPING then (XR_ERROR_SESSION_NOT_STOPPING, sess)
      else
        (let (lost, sess3) =
               (case compositor sess of
                  None \<Rightarrow> (False, sess)
                | Some xc \<Rightarrow>
                    (let (xc1, sess1) =
                           (if frame_id_waited sess > 0
                            then (snd (xrt_comp_discard_frame xc (frame_id_waited sess)),
                                  sess\<lparr>frame_id_waited := - 1\<rparr>)
                            else (xc, sess));
                         (xc2, sess2) =
                           (if frame_id_begun sess1 > 0
                            then (snd (xrt_comp_discard_frame xc1 (frame_id_begun sess1)),
                                  sess1\<lparr>frame_id_begun := - 1\<rparr>)
                            else (xc1, sess1));
                         (r, xc3) = xrt_comp_end_session xc2
                     in (r = XRT_ERROR_IPC_FAILURE,
                         sess2\<lparr>frame_started := False, compositor := Some xc3\<rparr>)))
         in if lost then (XR_ERROR_INSTANCE_LOST, sess3)
            else
              (let sess4 = oxr_session_change_state sess3 XR_SESSION_STATE_IDLE;
                   sess5 = (if exiting sess4
                            then oxr_session_change_state sess4 XR_SESSION_STATE_EXITING
                            else oxr_session_change_state sess4 XR_SESSION_STATE_READY);
                   sess6 = sess5\<lparr>has_begun := False\<rparr>
               in (success_result sess6, sess6))))"

definition oxr_session_request_exit ::
  "(oxr_session \<Rightarrow> XrResult) \<Rightarrow> oxr_session \<Rightarrow> XrResult \<times> oxr_session" where
  "oxr_session_request_exit success_result sess =
     (if \<not> is_running sess then (XR_ERROR_SESSION_NOT_RUNNING, sess)
      else
        (let sess1 = (if state sess = XR_SESSION_STATE_FOCUSED
                      then oxr_session_change_state sess XR_SESSION_STATE_VISIBLE else sess);
             sess2 = (if state sess1 = XR_SESSION_STATE_VISIBLE
                      then oxr_session_change_state sess1 XR_SESSION_STATE_SYNCHRONIZED
                      else sess1);
             sess3 = (if \<not> has_ended_once sess2
                      then (oxr_session_change_state sess2 XR_SESSION_STATE_SYNCHRONIZED)
                             \<lparr>has_ended_once := True\<rparr>
                      else sess2);
             sess4 = oxr_session_change_state sess3 XR_SESSION_STATE_STOPPING;
             sess5 = sess4\<lparr>exiting := True\<rparr>
         in (success_result sess5, sess5)))"


subsection \<open>Sample sessions\<close>

definition sample_compositor :: "xrt_result \<Rightarrow> xrt_compositor" where
  "sample_compositor r =
     \<lparr>discard_frame = (\<lambda>_. r), begin_frame = (\<lambda>_. r), end_session = r, calls = []\<rparr>"

text \<open>
  A session with the given compositor, state, \<open>has_begun\<close>, \<open>exiting\<close>,
  \<open>frame_started\<close> and \<open>active_wait_frames\<close>; frame 7 has been waited for and
  frame 6 begun.
\<close>

definition sample_session ::
  "xrt_compositor option \<Rightarrow> XrSessionState \<Rightarrow> bool \<Rightarrow> bool \<Rightarrow> bool \<Rightarrow> int \<Rightarrow> oxr_session" where
  "sample_session xc st begun ex started waits =
     \<lparr>compositor = xc, state = st, has_begun = begun, exiting = ex, has_ended_once = True,
      frame_started = started, frame_id_waited = 7, frame_id_begun = 6,
      active_wait_frames = waits, sem = 0, events = []\<rparr>"

definition sample_success_result :: "oxr_session \<Rightarrow> XrResult" where
  "sample_success_result sess =
     (if state sess = XR_SESSION_STATE_LOSS_PENDING then XR_SESSION_LOSS_PENDING
      else XR_SUCCESS)"

section \<open>Display timing: frame records and the adaptive controller\<close>

text \<open>
  Modelled from the spec: the constants \<open>U_TIME_1MS_IN_NS\<close> and
  \<open>U_TIME_HALF_MS_IN_NS\<close> are declared in a header that is not in the sources; the
  spec gives 1 ms and 0.5 ms, in nanoseconds.
\<close>

definition U_TIME_1MS_IN_NS :: "64 word" where
  "U_TIME_1MS_IN_NS = 1000000"

definition U_TIME_HALF_MS_IN_NS :: "64 word" where
  "U_TIME_HALF_MS_IN_NS = 500000"

definition NUM_FRAMES :: nat where
  "NUM_FRAMES = 16"

datatype frame_state =
    STATE_SKIPPED
  | STATE_CLEARED
  | STATE_PREDICTED
  | STATE_WOKE
  | STATE_BEGAN
  | STATE_SUBMITTED
  | STATE_INFO

text \<open>The values of the enumerators, for the comparison \<open>f->state >= state\<close>.\<close>

fun frame_state_value :: "frame_state \<Rightarrow> int" where
  "frame_state_value STATE_SKIPPED = - 1"
| "frame_state_value STATE_CLEARED = 0"
| "frame_state_value STATE_PREDICTED = 1"
| "frame_state_value STATE_WOKE = 2"
| "frame_state_value STATE_BEGAN = 3"
| "frame_state_value STATE_SUBMITTED = 4"
| "frame_state_value STATE_INFO = 5"

text \<open>
  \<open>struct frame\<close>; the field \<open>state\<close> is \<open>f_state\<close> here. \<open>frame_id\<close> is an
  \<open>int64_t\<close> that only counts up from 0 and is an \<open>int\<close> in the model.
\<close>

record frame =
  frame_id :: int
  when_predict_ns :: "64 word"
  wake_up_time_ns :: "64 word"
  when_woke_ns :: "64 word"
  when_began_ns :: "64 word"
  when_submitted_ns :: "64 word"
  when_infoed_ns :: "64 word"
  current_app_time_ns :: "64 word"
  expected_done_time_ns :: "64 word"
  desired_present_time_ns :: "64 word"
  predicted_display_time_ns :: "64 word"
  present_margin_ns :: "64 word"
  actual_present_time_ns :: "64 word"
  earliest_present_time_ns :: "64 word"
  f_state :: frame_state

record display_timing =
  present_offset_ns :: "64 word"
  frame_period_ns :: "64 word"
  app_time_ns :: "64 word"
  padding_time_ns :: "64 word"
  next_frame_id :: int
  app_time_max_ns :: "64 word"
  adjust_missed_ns :: "64 word"
  adjust_non_miss_ns :: "64 word"
  margin_ns :: "64 word"
  frames :: "frame list"

datatype timing_error = ASSERT_FAILED | INDEX_OUT_OF_BOUNDS

text \<open>
  \<open>is_within_of_each_other\<close> computes in \<open>int64_t\<close>: the casts of the three
  \<open>uint64_t\<close> arguments, the subtraction and the negation are two's complement
  operations on 64 bits (\<open>sint\<close> reads a word as a signed value).
\<close>

definition is_within_of_each_other :: "64 word \<Rightarrow> 64 word \<Rightarrow> 64 word \<Rightarrow> bool" where
  "is_within_of_each_other l r range_ns =
     (sint (- range_ns) < sint (l - r) \<and> sint (l - r) < sint range_ns)"

definition is_within_half_ms :: "64 word \<Rightarrow> 64 word \<Rightarrow> bool" where
  "is_within_half_ms l r = is_within_of_each_other l r U_TIME_HALF_MS_IN_NS"

text \<open>
  \<open>get_frame\<close> returns the index of the frame record for \<open>frame_id\<close>. The parameter
  \<open>debug\<close> says whether assertions are compiled in (\<open>NDEBUG\<close> not defined). Without
  the assertion a negative \<open>frame_id\<close> gives the remainder of C's truncating division,
  which as a \<open>size_t\<close> is outside the array unless it is 0.
\<close>

definition get_frame :: "bool \<Rightarrow> display_timing \<Rightarrow> int \<Rightarrow> timing_error + nat" where
  "get_frame debug dt fid =
     (if debug \<and> \<not> fid \<ge> 0 then Inl ASSERT_FAILED
      else
        (let r = (if fid \<ge> 0 then fid mod int NUM_FRAMES
                  else - ((- fid) mod int NUM_FRAMES))
         in if r < 0 \<or> \<not> nat r < length (frames dt) then Inl INDEX_OUT_OF_BOUNDS
            else Inr (nat r)))"

text \<open>
  The loop of \<open>get_latest_frame_with_state_at_least\<close>: \<open>start_from\<close> and \<open>cnt\<close>
  (\<open>count\<close> in the source) are the two \<open>uint64_t\<close> locals; the result is the index
  of the frame found, or \<open>None\<close> for NULL.
\<close>

function latest_frame_loop ::
  "bool \<Rightarrow> display_timing \<Rightarrow> frame_state \<Rightarrow> 64 word \<Rightarrow> nat \<Rightarrow> timing_error + nat option" where
  "latest_frame_loop debug dt st start_from cnt =
     (if start_from \<ge> of_nat cnt \<and> cnt < NUM_FRAMES then
        (case get_frame debug dt (sint (start_from - of_nat cnt)) of
           Inl e \<Rightarrow> Inl e
         | Inr i \<Rightarrow>
             if frame_state_value (f_state (frames dt ! i)) \<ge> frame_state_value st
             then Inr (Some i)
             else latest_frame_loop debug dt st start_from (Suc cnt))
      else Inr None)"
  by pat_completeness auto
termination
  by (relation "measure (\<lambda>(debug, dt, st, start_from, cnt). NUM_FRAMES - cnt)") auto

definition get_latest_frame_with_state_at_least ::
  "bool \<Rightarrow> display_timing \<Rightarrow> frame_state \<Rightarrow> timing_error + nat option" where
  "get_latest_frame_with_state_at_least debug dt st =
     latest_frame_loop debug dt st (word_of_int (next_frame_id dt)) 1"

text \<open>\<open>adjust_app_time\<close>: the additions and the subtraction are on \<open>uint64_t\<close>.\<close>

definition adjust_app_time :: "display_timing \<Rightarrow> frame \<Rightarrow> display_timing" where
  "adjust_app_time dt f =
     (if actual_present_time_ns f > desired_present_time_ns f \<and>
         \<not> is_within_half_ms (actual_present_time_ns f) (desired_present_time_ns f)
      then
        (let app_time = app_time_ns dt + adjust_missed_ns dt;
             app_time' = (if app_time > app_time_max_ns dt then app_time_max_ns dt
                          else app_time)
         in dt\<lparr>app_time_ns := app_time'\<rparr>)
      else if is_within_of_each_other (present_margin_ns f) (margin_ns dt)
                (adjust_non_miss_ns dt)
      then dt
      else if present_margin_ns f > margin_ns dt
      then dt\<lparr>app_time_ns := app_time_ns dt - adjust_non_miss_ns dt\<rparr>
      else dt\<lparr>app_time_ns := app_time_ns dt + adjust_non_miss_ns dt\<rparr>)"

datatype u_timing_point =
    U_TIMING_POINT_WAKE_UP
  | U_TIMING_POINT_BEGIN
  | U_TIMING_POINT_SUBMIT
  | U_TIMING_POINT_OTHER

text \<open>
  \<open>dt_mark_point\<close>. Each case asserts the state the frame must be in and then writes
  the new state and the timestamp; \<open>U_TIMING_POINT_OTHER\<close> stands for any value of
  the enumeration type that is not one of the three points (the \<open>default\<close> case).
\<close>

definition dt_mark_point ::
  "bool \<Rightarrow> u_timing_point \<Rightarrow> int \<Rightarrow> 64 word \<Rightarrow> display_timing
     \<Rightarrow> timing_error + display_timing" where
  "dt_mark_point debug point fid when_ns dt =
     (case get_frame debug dt fid of
        Inl e \<Rightarrow> Inl e
      | Inr i \<Rightarrow>
          (let f = frames dt ! i in
           case point of
             U_TIMING_POINT_WAKE_UP \<Rightarrow>
               if debug \<and> \<not> f_state f = STATE_PREDICTED then Inl ASSERT_FAILED
               else Inr (dt\<lparr>frames := (frames dt)
                          [i := f\<lparr>f_state := STATE_WOKE, when_woke_ns := when_ns\<rparr>]\<rparr>)
           | U_TIMING_POINT_BEGIN \<Rightarrow>
               if debug \<and> \<not> f_state f = STATE_WOKE then Inl ASSERT_FAILED
               else Inr (dt\<lparr>frames := (frames dt)
                          [i := f\<lparr>f_state := STATE_BEGAN, when_began_ns := when_ns\<rparr>]\<rparr>)
           | U_TIMING_POINT_SUBMIT \<Rightarrow>
               if debug \<and> \<not> f_state f = STATE_BEGAN then Inl ASSERT_FAILED
               else Inr (dt\<lparr>frames := (frames dt)
                          [i := f\<lparr>f_state := STATE_SUBMITTED, when_submitted_ns := when_ns\<rparr>]\<rparr>)
           | U_TIMING_POINT_OTHER \<Rightarrow>
               if debug then Inl ASSERT_FAILED else Inr dt))"

text \<open>
  For each of the three points: the state the assertion of its case wants the frame to
  be in, the state the case writes, and the timestamp field the case writes.
\<close>

fun point_state_before :: "u_timing_point \<Rightarrow> frame_state option" where
  "point_state_before U_TIMING_POINT_WAKE_UP = Some STATE_PREDICTED"
| "point_state_before U_TIMING_POINT_BEGIN = Some STATE_WOKE"
| "point_state_before U_TIMING_POINT_SUBMIT = Some STATE_BEGAN"
| "point_state_before U_TIMING_POINT_OTHER = None"

fun point_state_after :: "u_timing_point \<Rightarrow> frame_state option" where
  "point_state_after U_TIMING_POINT_WAKE_UP = Some STATE_WOKE"
| "point_state_after U_TIMING_POINT_BEGIN = Some STATE_BEGAN"
| "point_state_after U_TIMING_POINT_SUBMIT = Some STATE_SUBMITTED"
| "point_state_after U_TIMING_POINT_OTHER = None"

fun point_timestamp :: "u_timing_point \<Rightarrow> frame \<Rightarrow> 64 word option" where
  "point_timestamp U_TIMING_POINT_WAKE_UP f = Some (when_woke_ns f)"
| "point_timestamp U_TIMING_POINT_BEGIN f = Some (when_began_ns f)"
| "point_timestamp U_TIMING_POINT_SUBMIT f = Some (when_submitted_ns f)"
| "point_timestamp U_TIMING_POINT_OTHER f = None"

text \<open>
  \<open>dt_info\<close>, up to the call of \<open>adjust_app_time\<close> (what follows only logs and
  traces). \<open>now\<close> is the value of the monotonic clock. The parameter
  \<open>desired_present_time\<close> is not used by the function: the controller reads the
  desired present time stored in the frame record.
\<close>

definition dt_info ::
  "bool \<Rightarrow> 64 word \<Rightarrow> int \<Rightarrow> 64 word \<Rightarrow> 64 word \<Rightarrow> 64 word \<Rightarrow> 64 word \<Rightarrow> display_timing
     \<Rightarrow> timing_error + display_timing" where
  "dt_info debug now fid desired_present_time actual_present_time earliest_present_time
       present_margin dt =
     (case get_latest_frame_with_state_at_least debug dt STATE_INFO of
        Inl e \<Rightarrow> Inl e
      | Inr last_frame \<Rightarrow>
          (case get_frame debug dt fid of
             Inl e \<Rightarrow> Inl e
           | Inr i \<Rightarrow>
               if debug \<and> \<not> f_state (frames dt ! i) = STATE_SUBMITTED then Inl ASSERT_FAILED
               else
                 (let f = (frames dt ! i)
                            \<lparr>when_infoed_ns := now,
                             actual_present_time_ns := actual_present_time,
                             earliest_present_time_ns := earliest_present_time,
                             present_margin_ns := present_margin,
                             f_state := STATE_INFO\<rparr>;
                      dt1 = dt\<lparr>frames := (frames dt)[i := f]\<rparr>
                  in Inr (adjust_app_time dt1 f))))"

text \<open>An all-zero frame record, as \<open>calloc\<close> leaves it.\<close>

definition zero_frame :: frame where
  "zero_frame =
     \<lparr>frame_id = 0, when_predict_ns = 0, wake_up_time_ns = 0, when_woke_ns = 0,
      when_began_ns = 0, when_submitted_ns = 0, when_infoed_ns = 0,
      current_app_time_ns = 0, expected_done_time_ns = 0, desired_present_time_ns = 0,
      predicted_display_time_ns = 0, present_margin_ns = 0, actual_present_time_ns = 0,
      earliest_present_time_ns = 0, f_state = STATE_CLEARED\<rparr>"

text \<open>
  \<open>u_ft_display_timing_create\<close>. \<open>get_percent_of_time\<close> computes in floating point
  with two conversion helpers that are not in the sources; it is the parameter
  \<open>get_percent_of_time\<close> of the model.
\<close>

definition u_ft_display_timing_create ::
  "(64 word \<Rightarrow> 32 word \<Rightarrow> 64 word) \<Rightarrow> 64 word \<Rightarrow> display_timing" where
  "u_ft_display_timing_create get_percent_of_time estimated_frame_period_ns =
     \<lparr>present_offset_ns = U_TIME_1MS_IN_NS * 4,
      frame_period_ns = estimated_frame_period_ns,
      app_time_ns = get_percent_of_time estimated_frame_period_ns 10,
      padding_time_ns = 0,
      next_frame_id = 0,
      app_time_max_ns = get_percent_of_time estimated_frame_period_ns 30,
      adjust_missed_ns = get_percent_of_time estimated_frame_period_ns 4,
      adjust_non_miss_ns = get_percent_of_time estimated_frame_period_ns 2,
      margin_ns = U_TIME_1MS_IN_NS,
      frames = replicate NUM_FRAMES zero_frame\<rparr>"

subsection \<open>Sample display timing\<close>

text \<open>
  The percentage in integer arithmetic, and a display timing for a period of 10 ms
  (application time 1 ms, at most 3 ms, steps of 0.4 ms and 0.2 ms) in which frame 0
  has been predicted with the given desired present time, and submitted.
\<close>

definition sample_percent_of_time :: "64 word \<Rightarrow> 32 word \<Rightarrow> 64 word" where
  "sample_percent_of_time t p = t * ucast p div 100"

definition sample_display_timing :: "64 word \<Rightarrow> display_timing" where
  "sample_display_timing desired =
     (u_ft_display_timing_create sample_percent_of_time 10000000)
       \<lparr>next_frame_id := 1,
        frames := (replicate NUM_FRAMES zero_frame)
          [0 := zero_frame\<lparr>desired_present_time_ns := desired, f_state := STATE_SUBMITTED\<rparr>]\<rparr>"

section \<open>Render timing helper\<close>

datatype u_rt_state =
    U_RT_READY
  | U_RT_WAIT_LEFT
  | U_RT_PREDICTED
  | U_RT_BEGUN

text \<open>
  One entry of the helper's frame ring, and the helper (\<open>struct u_rt_helper\<close>). The
  fields \<open>frame_id\<close>, \<open>state\<close>, \<open>begin\<close> and \<open>frames\<close> of the source are
  \<open>rt_frame_id\<close>, \<open>rt_state\<close>, \<open>begin_ns\<close> and \<open>rt_frames\<close> here. The length of
  \<open>rt_frames\<close> is the size of the array, which a header outside the sources fixes;
  it is not 0.
\<close>

record u_rt_frame =
  predicted :: "64 word"
  wait_woke :: "64 word"
  begin_ns :: "64 word"
  end_frame :: "64 word"
  rt_frame_id :: int
  rt_state :: u_rt_state

record u_rt_helper =
  rt_frames :: "u_rt_frame list"
  last_input :: "64 word"
  last_returned :: "64 word"
  period :: "64 word"
  extra :: "64 word"
  frame_counter :: int

text \<open>
  The loop of \<open>get_last_input_plus_period_at_least_greater_then\<close>:
  \<open>while (val <= then_ns) { val += urth->period; assert(val != 0); }\<close>.
  The addition wraps at \<open>2 ^ 64\<close>. The loop need not terminate (a period of 0), so
  the result is an option, \<open>None\<close> for a loop that runs forever; in a debug build the
  assertion can fail.
\<close>

partial_function (option) plus_period_loop ::
  "bool \<Rightarrow> 64 word \<Rightarrow> 64 word \<Rightarrow> 64 word \<Rightarrow> (timing_error + 64 word) option" where
  "plus_period_loop debug per then_ns val =
     (if val \<le> then_ns then
        (if debug \<and> \<not> val + per \<noteq> 0 then Some (Inl ASSERT_FAILED)
         else plus_period_loop debug per then_ns (val + per))
      else Some (Inr val))"

declare plus_period_loop.simps [code]

definition get_last_input_plus_period_at_least_greater_then ::
  "bool \<Rightarrow> u_rt_helper \<Rightarrow> 64 word \<Rightarrow> (timing_error + 64 word) option" where
  "get_last_input_plus_period_at_least_greater_then debug urth then_ns =
     plus_period_loop debug (period urth) then_ns (last_input urth)"

definition u_rt_helper_client_clear :: "u_rt_helper \<Rightarrow> u_rt_helper" where
  "u_rt_helper_client_clear urth =
     urth\<lparr>rt_frames :=
            map (\<lambda>f. f\<lparr>rt_state := U_RT_READY, rt_frame_id := - 1\<rparr>) (rt_frames urth)\<rparr>"

text \<open>\<open>u_rt_helper_init\<close> zeroes the helper; \<open>n\<close> is the size of the frame ring.\<close>

definition u_rt_helper_init :: "nat \<Rightarrow> u_rt_helper" where
  "u_rt_helper_init n =
     u_rt_helper_client_clear
       \<lparr>rt_frames =
          replicate n \<lparr>predicted = 0, wait_woke = 0, begin_ns = 0, end_frame = 0,
                       rt_frame_id = 0, rt_state = U_RT_READY\<rparr>,
        last_input = 0, last_returned = 0, period = 0, extra = 0, frame_counter = 0\<rparr>"

text \<open>The values \<open>u_rt_helper_predict\<close> writes through its out pointers.\<close>

record u_rt_prediction =
  out_frame_id :: int
  predicted_display_time :: "64 word"
  wake_up_time :: "64 word"
  predicted_display_period :: "64 word"
  min_display_period :: "64 word"

text \<open>
  The ring slot of a frame id: \<open>(uint64_t)frame_id % ARRAY_SIZE(urth->frames)\<close>.
\<close>

definition rt_index :: "u_rt_helper \<Rightarrow> int \<Rightarrow> nat" where
  "rt_index urth fid = nat (fid mod 2 ^ 64) mod length (rt_frames urth)"

text \<open>
  \<open>u_rt_helper_predict\<close>. \<open>now1\<close> and \<open>now2\<close> are the values of the monotonic clock
  at its two reads. The result is \<open>None\<close> when the loop above does not terminate,
  an error when an assertion of a debug build fails, and otherwise the prediction and
  the new helper.
\<close>

definition u_rt_helper_predict ::
  "bool \<Rightarrow> 64 word \<Rightarrow> 64 word \<Rightarrow> u_rt_helper
     \<Rightarrow> (timing_error + u_rt_prediction \<times> u_rt_helper) option" where
  "u_rt_helper_predict debug now1 now2 urth =
     (let fid = frame_counter urth + 1;
          urth1 = urth\<lparr>frame_counter := fid\<rparr>;
          at_least_ns = (if now1 < last_returned urth1 then last_returned urth1 else now1)
      in case get_last_input_plus_period_at_least_greater_then debug urth1 at_least_ns of
           None \<Rightarrow> None
         | Some (Inl e) \<Rightarrow> Some (Inl e)
         | Some (Inr predict_ns) \<Rightarrow>
             (let urth2 = urth1\<lparr>last_returned := predict_ns\<rparr>;
                  out = \<lparr>out_frame_id = fid,
                         predicted_display_time = predict_ns,
                         wake_up_time = predict_ns - period urth2,
                         predicted_display_period = period urth2,
                         min_display_period = period urth2\<rparr>;
                  i = rt_index urth2 fid
              in if debug \<and> \<not> rt_frame_id (rt_frames urth2 ! i) = - 1
                 then Some (Inl ASSERT_FAILED)
                 else if debug \<and> \<not> rt_state (rt_frames urth2 ! i) = U_RT_READY
                 then Some (Inl ASSERT_FAILED)
                 else Some (Inr (out,
                        urth2\<lparr>rt_frames := (rt_frames urth2)
                                 [i := (rt_frames urth2 ! i)
                                         \<lparr>predicted := now2, rt_state := U_RT_PREDICTED,
                                          rt_frame_id := fid\<rparr>]\<rparr>))))"

definition u_rt_helper_new_sample ::
  "u_rt_helper \<Rightarrow> 64 word \<times> 64 word \<times> 64 word \<Rightarrow> u_rt_helper" where
  "u_rt_helper_new_sample urth smp =
     (case smp of (predict, extra_ns, min_period) \<Rightarrow>
        urth\<lparr>last_input := predict, extra := extra_ns, period := min_period\<rparr>)"

text \<open>
  The broadcasts of the render loop that reach one helper between two calls of the
  client, in order.
\<close>

definition new_samples :: "u_rt_helper \<Rightarrow> (64 word \<times> 64 word \<times> 64 word) list \<Rightarrow> u_rt_helper" where
  "new_samples urth smps = foldl u_rt_helper_new_sample urth smps"

subsection \<open>Sample helper\<close>

text \<open>A helper with a ring of two free slots that has been sent one sample.\<close>

definition sample_rt_helper :: u_rt_helper where
  "sample_rt_helper = u_rt_helper_new_sample (u_rt_helper_init 2) (1000, 0, 100)"

section \<open>Properties of the event queue\<close>

declare find_event_slot_loop.simps [simp del]

lemma find_event_slot_loop_free:
  "i \<le> k \<Longrightarrow> k < length qes \<Longrightarrow> \<not> pending (qes ! k) \<Longrightarrow>
   (\<forall>j. i \<le> j \<and> j < k \<longrightarrow> pending (qes ! j)) \<Longrightarrow>
   find_event_slot_loop qes i t oi = k"
proof (induction "k - i" arbitrary: i oi)
  case 0
  then have "i = k" by simp
  with 0 show ?case by (subst find_event_slot_loop.simps) simp
next
  case (Suc d)
  then have lt: "i < k" and pi: "pending (qes ! i)" by auto
  have "find_event_slot_loop qes (Suc i) t oi' = k" for oi'
    using Suc.hyps(1)[of "Suc i" oi'] Suc.hyps(2) Suc.prems lt by auto
  with lt pi Suc.prems show ?case
    by (subst find_event_slot_loop.simps) (simp add: Let_def)
qed

lemma find_event_slot_loop_full:
  "i < length qes \<Longrightarrow> (\<forall>j. i \<le> j \<and> j < length qes \<longrightarrow> pending (qes ! j)) \<Longrightarrow>
   timestamp (qes ! 0) < t \<Longrightarrow>
   find_event_slot_loop qes i t oi = length qes - 1"
proof (induction "length qes - i" arbitrary: i oi)
  case 0
  then show ?case by simp
next
  case (Suc d)
  show ?case
  proof (cases "Suc i < length qes")
    case True
    then have "find_event_slot_loop qes (Suc i) t oi' = length qes - 1" for oi'
      using Suc.hyps(1)[of "Suc i" oi'] Suc.hyps(2) Suc.prems by auto
    with Suc.prems show ?thesis
      by (subst find_event_slot_loop.simps) (simp add: Let_def)
  next
    case False
    with Suc.prems have e: "Suc i = length qes" by simp
    have "find_event_slot_loop qes (Suc i) t i = i"
      using e by (subst find_event_slot_loop.simps) simp
    with Suc.prems e show ?thesis
      by (subst find_event_slot_loop.simps) (auto simp add: Let_def)
  qed
qed

text \<open>
  When some slot is not pending, \<open>find_event_slot\<close> returns the first such slot.
\<close>

lemma find_event_slot_first_free:
  assumes "k < length qes" "\<not> pending (qes ! k)" "\<forall>j<k. pending (qes ! j)"
  shows "find_event_slot qes = k"
  unfolding find_event_slot_def
  using assms by (intro find_event_slot_loop_free) auto

text \<open>
  When every slot is pending, the slot returned is the last one of the queue, whatever
  the timestamps are (as long as slot 0 does not hold \<open>UINT64_MAX\<close>).
\<close>

lemma find_event_slot_full:
  assumes "qes \<noteq> []" "\<forall>j<length qes. pending (qes ! j)"
    "timestamp (qes ! 0) \<noteq> UINT64_MAX"
  shows "find_event_slot qes = length qes - 1"
proof -
  have "timestamp (qes ! 0) < UINT64_MAX"
    using assms(3) unfolding UINT64_MAX_def by (simp add: word_order.not_eq_extremum)
  then show ?thesis
    unfolding find_event_slot_def
    using assms by (intro find_event_slot_loop_full) auto
qed

text \<open>
  C2. On overflow the claim wants the slot with the oldest timestamp. For a full queue
  whose events carry the timestamps 10, 20 and 30 (slot 0 the oldest), the function
  returns slot 2, the newest event.
\<close>

theorem find_event_slot_overflow_returns_last_slot:
  "find_event_slot [pending_event 10, pending_event 20, pending_event 30] = 2"
  by code_simp

section \<open>Properties of the server state update\<close>

lemma fallback_loop_none:
  "\<forall>ics \<in> set ths. \<not> (session_overlay ics = False \<and> server_thread_index ics \<ge> 0 \<and>
      session_active ics) \<Longrightarrow>
   fallback_loop ths i acc = acc"
  by (induction ths i acc rule: fallback_loop.induct) auto

text \<open>
  The fallback application is the last (highest-index) connected, active, non-overlay
  client.
\<close>

lemma fallback_loop_last:
  "k < length ths \<Longrightarrow>
   (session_overlay (ths ! k) = False \<and> server_thread_index (ths ! k) \<ge> 0 \<and>
      session_active (ths ! k)) \<Longrightarrow>
   (\<forall>j. k < j \<and> j < length ths \<longrightarrow>
      \<not> (session_overlay (ths ! j) = False \<and> server_thread_index (ths ! j) \<ge> 0 \<and>
         session_active (ths ! j))) \<Longrightarrow>
   fallback_loop ths i acc = (False, int (i + k))"
proof (induction ths i acc arbitrary: k rule: fallback_loop.induct)
  case (1 i acc)
  then show ?case by simp
next
  case (2 ics rest i set_idle fb)
  show ?case
  proof (cases k)
    case 0
    have "\<forall>c \<in> set rest. \<not> (session_overlay c = False \<and> server_thread_index c \<ge> 0 \<and>
            session_active c)"
    proof
      fix c assume "c \<in> set rest"
      then obtain j where "j < length rest" "rest ! j = c"
        by (auto simp: in_set_conv_nth)
      with 2(4)[rule_format, of "Suc j"] 0
      show "\<not> (session_overlay c = False \<and> server_thread_index c \<ge> 0 \<and> session_active c)"
        by auto
    qed
    with 0 2 show ?thesis by (simp add: fallback_loop_none)
  next
    case (Suc k')
    have "fallback_loop rest (Suc i)
       (if session_overlay ics = False \<and> server_thread_index ics \<ge> 0 \<and> session_active ics
        then (False, int i)
        else (set_idle, fb)) = (False, int (Suc i + k'))"
      using 2(2,3,4) Suc by (intro 2(1)[of k']) auto
    with Suc show ?thesis by simp
  qed
qed

text \<open>
  C7. Client 0 is the active primary but its session is no longer active; clients 1
  and 2 are connected, session-active and not overlays. The claim wants client 1 (the
  first candidate) as the new primary; the function selects client 2.
\<close>

theorem update_server_state_selects_last_candidate:
  "map_sum id active_client_index
     (update_server_state clk
        (sample_server
           [sample_client 0 False False 0, sample_client 1 True False 0,
            sample_client 2 True False 0] 0 0)) = Inr 2"
  by (simp add: update_server_state_def sample_server_def sample_client_def array_at_def)

text \<open>
  C10. An access \<open>threads[i]\<close> is in bounds exactly when \<open>0 \<le> i < IPC_MAX_CLIENTS\<close>;
  the state that \<open>init_server_state\<close> sets up has \<open>active_client_index = -1\<close>, the
  read of \<open>threads[active_client_index]\<close> in \<open>update_server_state\<close> is reached from it
  and is out of bounds.
\<close>

theorem update_server_state_reads_out_of_bounds_after_init:
  "(array_at ths i \<noteq> None) = (0 \<le> i \<and> i < int (length ths))
   \<and> active_client_index (init_server_state s) = - 1
   \<and> array_at (threads (init_server_state s)) (active_client_index (init_server_state s)) = None
   \<and> update_server_state clk (init_server_state s) = Inl OUT_OF_BOUNDS"
  by (simp add: update_server_state_def init_server_state_def array_at_def split: prod.splits)

section \<open>Properties of the layer dispatch\<close>

text \<open>
  The array handed to \<open>qsort\<close> holds the entry \<open>z_entry s i\<close> for every client slot
  \<open>i\<close>, as long as the index of the primary is inside the array.
\<close>

lemma length_fill_z_data: "length (fill_z_data i ths) = length ths"
  by (induction ths arbitrary: i) simp_all

lemma nth_fill_z_data:
  "j < length ths \<Longrightarrow>
   fill_z_data i ths ! j =
     (if session_overlay (ths ! j) \<and> session_active (ths ! j)
      then \<lparr>zd_index = int (i + j), zd_z_order = z_order (ths ! j)\<rparr>
      else \<lparr>zd_index = - 1, zd_z_order = - 1\<rparr>)"
proof (induction ths arbitrary: i j)
  case Nil
  then show ?case by simp
next
  case (Cons ics rest)
  then show ?case by (cases j) simp_all
qed

lemma sorted_z_data_eq:
  assumes "active_client_index s < int (length (threads s))"
  shows "sorted_z_data qs s = Inr (qs (map (z_entry s) [0 ..< length (threads s)]))"
proof -
  let ?n = "length (threads s)" and ?a = "active_client_index s"
  have "place_primary (fill_z_data 0 (threads s)) ?a = Inr (map (z_entry s) [0 ..< ?n])"
  proof (cases "?a \<ge> 0")
    case True
    have "(fill_z_data 0 (threads s))[nat ?a := \<lparr>zd_index = ?a, zd_z_order = INT32_MIN\<rparr>]
            = map (z_entry s) [0 ..< ?n]"
      using True
      by (intro nth_equalityI)
        (auto simp add: length_fill_z_data nth_fill_z_data z_entry_def nth_list_update)
    with True assms show ?thesis
      by (simp add: place_primary_def length_fill_z_data)
  next
    case False
    have "fill_z_data 0 (threads s) = map (z_entry s) [0 ..< ?n]"
      using False
      by (intro nth_equalityI)
        (auto simp add: length_fill_z_data nth_fill_z_data z_entry_def)
    with False show ?thesis
      by (simp add: place_primary_def)
  qed
  then show ?thesis by (simp add: sorted_z_data_def)
qed

lemma z_entry_index:
  "(\<not> zd_index (z_entry s i) < 0) = rendered_client s i"
  "rendered_client s i \<Longrightarrow> nat (zd_index (z_entry s i)) = i"
  "rendered_client s i \<Longrightarrow> sint (zd_z_order (z_entry s i)) = effective_z s i"
  by (auto simp add: z_entry_def rendered_client_def effective_z_def)

lemma overlay_sort_func_le:
  "(overlay_sort_func a b \<le> 0) = (sint (zd_z_order a) \<le> sint (zd_z_order b))"
  by (auto simp add: overlay_sort_func_def)


lemma insort_key_map_key:
  "insort_key f (g x) (map g xs) = map g (insort_key (\<lambda>y. f (g y)) x xs)"
  by (induction xs) simp_all

lemma sort_key_map_key:
  "sort_key f (map g xs) = map g (sort_key (\<lambda>y. f (g y)) xs)"
  by (induction xs) (simp_all add: insort_key_map_key)

lemma insort_key_cong_set:
  "f x = g x \<Longrightarrow> (\<forall>y \<in> set ys. f y = g y) \<Longrightarrow> insort_key f x ys = insort_key g x ys"
  by (induction ys) simp_all

lemma sort_key_cong_set:
  "(\<forall>y \<in> set xs. f y = g y) \<Longrightarrow> sort_key f xs = sort_key g xs"
proof (induction xs)
  case Nil
  then show ?case by simp
next
  case (Cons x xs)
  then have "sort_key f xs = sort_key g xs" by simp
  moreover have "insort_key f x (sort_key g xs) = insort_key g x (sort_key g xs)"
    using Cons.prems by (intro insort_key_cong_set) simp_all
  ultimately show ?case by simp
qed

lemma filter_z_entries:
  "filter (\<lambda>zd. \<not> zd_index zd < 0) (map (z_entry s) xs)
     = map (z_entry s) (filter (rendered_client s) xs)"
  by (induction xs) (simp_all add: z_entry_index(1))

lemma map_index_z_entry:
  "\<forall>x \<in> set xs. rendered_client s x \<Longrightarrow>
   map (\<lambda>zd. nat (zd_index zd)) (map (z_entry s) xs) = xs"
  by (induction xs) (simp_all add: z_entry_index(2))

lemma qsort_spec_stable_qsort: "qsort_spec stable_qsort"
  unfolding qsort_spec_def stable_qsort_def
proof (intro allI conjI)
  fix xs :: "z_sort_data list"
  show "mset (sort_key (\<lambda>zd. sint (zd_z_order zd)) xs) = mset xs" by simp
  have "sorted (map (\<lambda>zd. sint (zd_z_order zd)) (sort_key (\<lambda>zd. sint (zd_z_order zd)) xs))"
    by simp
  then show "sorted_wrt (\<lambda>a b. overlay_sort_func a b \<le> 0)
      (sort_key (\<lambda>zd. sint (zd_z_order zd)) xs)"
    by (simp add: sorted_map overlay_sort_func_le)
qed

lemma sorted_clients_stable:
  assumes "active_client_index s < int (length (threads s))"
  shows "sorted_clients stable_qsort s =
           Inr (sort_key (effective_z s)
                  (filter (rendered_client s) [0 ..< length (threads s)]))"
proof -
  let ?L = "filter (rendered_client s) [0 ..< length (threads s)]"
  let ?key = "\<lambda>zd. sint (zd_z_order zd)"
  have k: "sort_key (\<lambda>i. ?key (z_entry s i)) ?L = sort_key (effective_z s) ?L"
    by (intro sort_key_cong_set) (simp add: z_entry_index(3))
  have "filter (\<lambda>zd. \<not> zd_index zd < 0)
          (sort_key ?key (map (z_entry s) [0 ..< length (threads s)]))
        = map (z_entry s) (sort_key (effective_z s) ?L)"
    by (simp only: filter_sort filter_z_entries sort_key_map_key k)
  moreover have "map (\<lambda>zd. nat (zd_index zd)) (map (z_entry s) (sort_key (effective_z s) ?L))
        = sort_key (effective_z s) ?L"
    by (intro map_index_z_entry) simp
  ultimately show ?thesis
    by (simp add: sorted_clients_def sorted_z_data_eq[OF assms] stable_qsort_def)
qed

lemma sorted_clients_general:
  assumes "qsort_spec qs" and "active_client_index s < int (length (threads s))"
  shows "\<exists>order. sorted_clients qs s = Inr order
           \<and> distinct order
           \<and> set order = {i. i < length (threads s) \<and> rendered_client s i}
           \<and> sorted (map (effective_z s) order)"
proof -
  let ?n = "length (threads s)"
  let ?L = "filter (rendered_client s) [0 ..< ?n]"
  let ?zs = "map (z_entry s) [0 ..< ?n]"
  let ?P = "\<lambda>zd. \<not> zd_index zd < 0"
  let ?F = "filter ?P (qs ?zs)"
  let ?order = "map (\<lambda>zd. nat (zd_index zd)) ?F"
  have ms: "mset (qs ?zs) = mset ?zs"
    and so: "sorted_wrt (\<lambda>a b. overlay_sort_func a b \<le> 0) (qs ?zs)"
    using assms(1) by (simp_all add: qsort_spec_def)
  have r: "sorted_clients qs s = Inr ?order"
    by (simp add: sorted_clients_def sorted_z_data_eq[OF assms(2)])
  have "mset ?F = mset (filter ?P ?zs)"
    using ms by (simp only: mset_filter)
  also have "\<dots> = mset (map (z_entry s) ?L)"
    by (simp only: filter_z_entries)
  finally have mF: "mset ?F = mset (map (z_entry s) ?L)" .
  then have "mset ?order = mset (map (\<lambda>zd. nat (zd_index zd)) (map (z_entry s) ?L))"
    by (metis mset_map)
  also have "map (\<lambda>zd. nat (zd_index zd)) (map (z_entry s) ?L) = ?L"
    by (intro map_index_z_entry) simp
  finally have mo: "mset ?order = mset ?L" .
  have d: "distinct ?order"
    using mo by (metis distinct_filter distinct_upt mset_eq_imp_distinct_iff)
  have st: "set ?order = {i. i < ?n \<and> rendered_client s i}"
    using mset_eq_setD[OF mo] by auto
  have inF: "\<exists>i. rendered_client s i \<and> zd = z_entry s i" if "zd \<in> set ?F" for zd
  proof -
    have "set ?F = set (map (z_entry s) ?L)"
      using mset_eq_setD[OF mF] .
    with that have "zd \<in> set (map (z_entry s) ?L)"
      by blast
    then show ?thesis by auto
  qed
  have "sorted_wrt (\<lambda>a b. overlay_sort_func a b \<le> 0) ?F"
    using so by (rule sorted_wrt_filter)
  then have sF: "sorted (map (\<lambda>zd. sint (zd_z_order zd)) ?F)"
    by (simp add: sorted_map overlay_sort_func_le)
  have eq: "map (effective_z s) ?order = map (\<lambda>zd. sint (zd_z_order zd)) ?F"
  proof -
    have "effective_z s (nat (zd_index zd)) = sint (zd_z_order zd)" if "zd \<in> set ?F" for zd
      using inF[OF that] by (auto simp add: z_entry_index(2,3))
    then show ?thesis by (simp add: o_def cong: map_cong)
  qed
  have "sorted (map (effective_z s) ?order)"
    unfolding eq by (fact sF)
  with r d st show ?thesis by blast
qed


text \<open>
  The calls \<open>_update_layers\<close> has made when it returns are the calls of the first
  \<open>k\<close> clients of \<open>sorted_clients\<close>, one client after the other; when it returns
  \<open>true\<close> these are all the clients of the list, and when it returns \<open>false\<close> the
  last of them is the client with the invalid layer, whose calls stop before that layer.
\<close>

lemma client_layers_loop_acc:
  "client_layers_loop s ci ics ls acc =
     (case client_layers_loop s ci ics ls [] of
        Inl e \<Rightarrow> Inl e
      | Inr (ok, cs) \<Rightarrow> Inr (ok, acc @ cs))"
proof (induction ls arbitrary: acc)
  case Nil
  then show ?case by simp
next
  case (Cons layer rest)
  have r: "client_layers_loop s ci ics rest (acc @ [c]) =
     (case client_layers_loop s ci ics rest [c] of
        Inl e \<Rightarrow> Inl e
      | Inr (ok, cs) \<Rightarrow> Inr (ok, acc @ cs))" for c
    by (subst Cons.IH[of "acc @ [c]"], subst Cons.IH[of "[c]"])
      (simp split: sum.splits prod.splits)
  show ?case
    by (simp add: r Cons.IH[of acc] split: xrt_layer_type.splits sum.splits option.splits)
qed

lemma render_loop_calls_prefix:
  "render_loop s zs acc = Inr (ok, cs) \<Longrightarrow>
   \<exists>k. k \<le> length (filter (\<lambda>zd. \<not> zd_index zd < 0) zs) \<and>
       (ok \<longrightarrow> k = length (filter (\<lambda>zd. \<not> zd_index zd < 0) zs)) \<and>
       cs = acc @ concat (map (client_calls s)
              (take k (map (\<lambda>zd. nat (zd_index zd)) (filter (\<lambda>zd. \<not> zd_index zd < 0) zs))))"
proof (induction zs arbitrary: acc)
  case Nil
  then show ?case by auto
next
  case (Cons zd rest)
  let ?F = "filter (\<lambda>zd. \<not> zd_index zd < 0) rest"
  show ?case
  proof (cases "zd_index zd < 0")
    case True
    with Cons show ?thesis by simp
  next
    case False
    with Cons.prems obtain ics b acc' where
      a: "array_at (threads s) (zd_index zd) = Some ics"
      and c: "client_layers_loop s (nat (zd_index zd)) ics (layers ics) acc = Inr (b, acc')"
      and r: "if b then render_loop s rest acc' = Inr (ok, cs) else (ok = False \<and> cs = acc')"
      by (auto split: option.splits sum.splits prod.splits bool.splits if_splits)
    from a have i: "ics = threads s ! nat (zd_index zd)"
      by (simp add: array_at_def split: if_splits)
    have acc': "acc' = acc @ client_calls s (nat (zd_index zd))"
      using c unfolding i client_calls_def
      by (subst (asm) client_layers_loop_acc) (auto split: sum.splits prod.splits)
    show ?thesis
    proof (cases b)
      case True
      with r have "render_loop s rest acc' = Inr (ok, cs)" by simp
      from Cons.IH[OF this] obtain k where
        k: "k \<le> length ?F" "ok \<longrightarrow> k = length ?F"
        "cs = acc' @ concat (map (client_calls s) (take k (map (\<lambda>zd. nat (zd_index zd)) ?F)))"
        by blast
      show ?thesis
        using k False acc' by (intro exI[of _ "Suc k"]) simp
    next
      case False
      with r have "ok = False" "cs = acc'" by simp_all
      then show ?thesis
        using \<open>\<not> zd_index zd < 0\<close> acc' by (intro exI[of _ "Suc 0"]) simp
    qed
  qed
qed

lemma update_layers_calls:
  assumes "update_layers qs s = Inr (ok, cs)"
  shows "\<exists>order k. sorted_clients qs s = Inr order \<and> k \<le> length order \<and>
           (ok \<longrightarrow> k = length order) \<and>
           cs = concat (map (client_calls s) (take k order))"
proof -
  from assms obtain zs where z: "sorted_z_data qs s = Inr zs"
    and r: "render_loop s zs [] = Inr (ok, cs)"
    by (auto simp add: update_layers_def split: sum.splits)
  from render_loop_calls_prefix[OF r] z show ?thesis
    by (auto simp add: sorted_clients_def)
qed

text \<open>
  C1. The claim: for every render tick the client layer stacks are dispatched in
  the stable ascending order by \<open>z_order\<close> of the active overlay clients, with the
  active primary client put in front, at position 0. The comment in
  \<open>_update_layers\<close> says the same of the primary: it is to be "rendered first in the
  stack". The code does not put the primary in front: it writes the primary into its
  own slot of the array with \<open>z_order = INT32_MIN\<close> and sorts it with the overlays.

  The failing tick: client 0 is an active overlay with \<open>z_order = INT32_MIN\<close>, client 1
  is the active primary, each with one valid quad layer. With a stable sort, which is
  the sort the claim names, \<open>_update_layers\<close> returns \<open>true\<close> and has dispatched the
  quad of the overlay, client 0, before the quad of the primary, client 1 (the first
  argument of \<open>LAYER_QUAD\<close> is the client whose layer it is). The second equation
  holds for whatever function stands for \<open>qsort\<close>: the sorted array of this tick is the
  sorted array of the tick in which client 1 is not the primary but a second active
  overlay with \<open>z_order = INT32_MIN\<close>; so a \<open>qsort\<close> that puts the primary first on
  the first tick puts, on the second, two overlays of equal \<open>z_order\<close> against their
  client-index order.
\<close>

theorem update_layers_overlay_before_primary:
  "update_layers stable_qsort
     (sample_layer_server
        [sample_quad_client 0 True True INT32_MIN, sample_quad_client 1 True False 0] 1)
     = Inr (True, [LAYER_QUAD 0 0 0, LAYER_QUAD 1 0 0])
   \<and> sorted_z_data qs
         (sample_layer_server
            [sample_quad_client 0 True True INT32_MIN, sample_quad_client 1 True False 0] 1)
     = sorted_z_data qs
         (sample_layer_server
            [sample_quad_client 0 True True INT32_MIN, sample_quad_client 1 True True INT32_MIN]
            (- 1))"
proof -
  have "update_layers stable_qsort
     (sample_layer_server
        [sample_quad_client 0 True True INT32_MIN, sample_quad_client 1 True False 0] 1)
     = Inr (True, [LAYER_QUAD 0 0 0, LAYER_QUAD 1 0 0])"
    by code_simp
  then show ?thesis
    by (simp add: sorted_z_data_def place_primary_def sample_layer_server_def
        sample_server_def sample_quad_client_def sample_client_def)
qed

section \<open>Properties of the session functions\<close>

text \<open>
  A successful \<open>request_exit\<close> on a running session leaves it running, in state
  \<open>STOPPING\<close>, with the \<open>exiting\<close> flag set; the compositor is not touched.
\<close>

lemma oxr_session_request_exit_running:
  assumes "is_running sess"
  shows "exiting (snd (oxr_session_request_exit sr sess))"
    and "state (snd (oxr_session_request_exit sr sess)) = XR_SESSION_STATE_STOPPING"
    and "is_running (snd (oxr_session_request_exit sr sess))"
    and "compositor (snd (oxr_session_request_exit sr sess)) = compositor sess"
  using assms
  by (simp_all add: oxr_session_request_exit_def oxr_session_change_state_def
      oxr_event_push_XrEventDataSessionStateChanged_def is_running_def Let_def)

lemma oxr_session_end_ok:
  assumes "is_running sess" "state sess = XR_SESSION_STATE_STOPPING"
    "case compositor sess of None \<Rightarrow> True
     | Some xc \<Rightarrow> end_session xc \<noteq> XRT_ERROR_IPC_FAILURE"
  shows "state (snd (oxr_session_end sr sess)) =
           (if exiting sess then XR_SESSION_STATE_EXITING else XR_SESSION_STATE_READY)"
    and "events (snd (oxr_session_end sr sess)) =
           events sess @ [XrEventDataSessionStateChanged XR_SESSION_STATE_IDLE,
                          XrEventDataSessionStateChanged
                            (if exiting sess then XR_SESSION_STATE_EXITING
                             else XR_SESSION_STATE_READY)]"
    and "has_begun (snd (oxr_session_end sr sess)) = False"
    and "fst (oxr_session_end sr sess) = sr (snd (oxr_session_end sr sess))"
  using assms
  by (auto simp add: oxr_session_end_def oxr_session_change_state_def
      oxr_event_push_XrEventDataSessionStateChanged_def Let_def
      xrt_comp_end_session_def xrt_comp_discard_frame_def case_prod_beta
      split: option.splits)

lemma oxr_session_end_ipc_failure:
  assumes "is_running sess" "state sess = XR_SESSION_STATE_STOPPING"
    "compositor sess = Some xc" "end_session xc = XRT_ERROR_IPC_FAILURE"
  shows "fst (oxr_session_end sr sess) = XR_ERROR_INSTANCE_LOST"
    and "state (snd (oxr_session_end sr sess)) = XR_SESSION_STATE_STOPPING"
    and "events (snd (oxr_session_end sr sess)) = events sess"
    and "is_running (snd (oxr_session_end sr sess))"
  using assms
  by (auto simp add: oxr_session_end_def is_running_def Let_def
      xrt_comp_end_session_def xrt_comp_discard_frame_def case_prod_beta)

text \<open>
  C6, as stated, fails when the compositor reports an IPC failure for
  \<open>end_session\<close>: the call returns \<open>XR_ERROR_INSTANCE_LOST\<close>, the session stays in
  \<open>STOPPING\<close> and no event is queued.
\<close>

theorem oxr_session_end_ipc_failure_counterexample:
  "is_running (sample_session (Some (sample_compositor XRT_ERROR_IPC_FAILURE))
                 XR_SESSION_STATE_STOPPING True False True 1)
   \<and> state (sample_session (Some (sample_compositor XRT_ERROR_IPC_FAILURE))
                 XR_SESSION_STATE_STOPPING True False True 1) = XR_SESSION_STATE_STOPPING
   \<and> fst (oxr_session_end sample_success_result
            (sample_session (Some (sample_compositor XRT_ERROR_IPC_FAILURE))
               XR_SESSION_STATE_STOPPING True False True 1)) = XR_ERROR_INSTANCE_LOST
   \<and> state (snd (oxr_session_end sample_success_result
            (sample_session (Some (sample_compositor XRT_ERROR_IPC_FAILURE))
               XR_SESSION_STATE_STOPPING True False True 1))) = XR_SESSION_STATE_STOPPING
   \<and> events (snd (oxr_session_end sample_success_result
            (sample_session (Some (sample_compositor XRT_ERROR_IPC_FAILURE))
               XR_SESSION_STATE_STOPPING True False True 1))) = []"
  by (simp add: oxr_session_end_def sample_session_def sample_compositor_def is_running_def
      xrt_comp_end_session_def xrt_comp_discard_frame_def)

text \<open>
  C6, amended. For a session that is running and in state \<open>STOPPING\<close>, and whose
  compositor (if it has one) does not report an IPC failure for \<open>end_session\<close>:
  \<open>oxr_session_end\<close> queues a state-changed event for \<open>IDLE\<close>, then one for
  \<open>EXITING\<close> if the \<open>exiting\<close> flag is set and for \<open>READY\<close> otherwise, leaves the
  session in that last state and no longer running, and returns the session's success
  result. The \<open>exiting\<close> flag is set by a successful \<open>request_exit\<close>, after which
  \<open>end_session\<close> ends in \<open>EXITING\<close>. When the compositor of a running session in
  state \<open>STOPPING\<close> reports an IPC failure for \<open>end_session\<close>, \<open>oxr_session_end\<close>
  returns \<open>XR_ERROR_INSTANCE_LOST\<close> and makes no transition: the session stays in
  \<open>STOPPING\<close>, running, and no event is queued.
\<close>

theorem oxr_session_end_transitions:
  assumes "is_running sess"
    and "state sess = XR_SESSION_STATE_STOPPING"
    and "case compositor sess of None \<Rightarrow> True
         | Some xc \<Rightarrow> end_session xc \<noteq> XRT_ERROR_IPC_FAILURE"
  shows "state (snd (oxr_session_end sr sess)) =
           (if exiting sess then XR_SESSION_STATE_EXITING else XR_SESSION_STATE_READY)
       \<and> events (snd (oxr_session_end sr sess)) =
           events sess @ [XrEventDataSessionStateChanged XR_SESSION_STATE_IDLE,
                          XrEventDataSessionStateChanged
                            (if exiting sess then XR_SESSION_STATE_EXITING
                             else XR_SESSION_STATE_READY)]
       \<and> has_begun (snd (oxr_session_end sr sess)) = False
       \<and> fst (oxr_session_end sr sess) = sr (snd (oxr_session_end sr sess))
       \<and> (is_running s0 \<and>
            (case compositor s0 of None \<Rightarrow> True
             | Some xc \<Rightarrow> end_session xc \<noteq> XRT_ERROR_IPC_FAILURE) \<longrightarrow>
            state (snd (oxr_session_end sr (snd (oxr_session_request_exit sr s0)))) =
              XR_SESSION_STATE_EXITING)
       \<and> (is_running sf \<and> state sf = XR_SESSION_STATE_STOPPING \<and>
            compositor sf = Some xf \<and> end_session xf = XRT_ERROR_IPC_FAILURE \<longrightarrow>
            fst (oxr_session_end sr sf) = XR_ERROR_INSTANCE_LOST \<and>
            state (snd (oxr_session_end sr sf)) = XR_SESSION_STATE_STOPPING \<and>
            events (snd (oxr_session_end sr sf)) = events sf \<and>
            is_running (snd (oxr_session_end sr sf)))"
proof -
  have "state (snd (oxr_session_end sr (snd (oxr_session_request_exit sr s0)))) =
          XR_SESSION_STATE_EXITING"
    if r: "is_running s0"
      and c: "case compositor s0 of None \<Rightarrow> True
              | Some xc \<Rightarrow> end_session xc \<noteq> XRT_ERROR_IPC_FAILURE"
  proof -
    let ?s1 = "snd (oxr_session_request_exit sr s0)"
    have s1: "is_running ?s1" "state ?s1 = XR_SESSION_STATE_STOPPING" "exiting ?s1"
      "case compositor ?s1 of None \<Rightarrow> True
       | Some xc \<Rightarrow> end_session xc \<noteq> XRT_ERROR_IPC_FAILURE"
      using oxr_session_request_exit_running[OF r, of sr] c by simp_all
    show ?thesis
      using oxr_session_end_ok(1)[OF s1(1,2,4), of sr] s1(3) by simp
  qed
  then show ?thesis
    using oxr_session_end_ok[OF assms, of sr] oxr_session_end_ipc_failure[of sf xf sr]
    by simp
qed

theorem oxr_session_end_transitions_witness:
  "state (snd (oxr_session_end sample_success_result
            (sample_session (Some (sample_compositor XRT_SUCCESS))
               XR_SESSION_STATE_STOPPING True True True 1))) = XR_SESSION_STATE_EXITING
   \<and> events (snd (oxr_session_end sample_success_result
            (sample_session (Some (sample_compositor XRT_SUCCESS))
               XR_SESSION_STATE_STOPPING True True True 1))) =
       [XrEventDataSessionStateChanged XR_SESSION_STATE_IDLE,
        XrEventDataSessionStateChanged XR_SESSION_STATE_EXITING]
   \<and> state (snd (oxr_session_end sample_success_result
            (sample_session None XR_SESSION_STATE_STOPPING True False False 0))) =
       XR_SESSION_STATE_READY
   \<and> events (snd (oxr_session_end sample_success_result
            (sample_session None XR_SESSION_STATE_STOPPING True False False 0))) =
       [XrEventDataSessionStateChanged XR_SESSION_STATE_IDLE,
        XrEventDataSessionStateChanged XR_SESSION_STATE_READY]
   \<and> state (snd (oxr_session_end sample_success_result
            (snd (oxr_session_request_exit sample_success_result
               (sample_session (Some (sample_compositor XRT_SUCCESS))
                  XR_SESSION_STATE_FOCUSED True False True 1))))) =
       XR_SESSION_STATE_EXITING
   \<and> fst (oxr_session_end sample_success_result
            (sample_session (Some (sample_compositor XRT_ERROR_IPC_FAILURE))
               XR_SESSION_STATE_STOPPING True True True 1)) = XR_ERROR_INSTANCE_LOST
   \<and> state (snd (oxr_session_end sample_success_result
            (sample_session (Some (sample_compositor XRT_ERROR_IPC_FAILURE))
               XR_SESSION_STATE_STOPPING True True True 1))) = XR_SESSION_STATE_STOPPING
   \<and> events (snd (oxr_session_end sample_success_result
            (sample_session (Some (sample_compositor XRT_ERROR_IPC_FAILURE))
               XR_SESSION_STATE_STOPPING True True True 1))) = []"
proof -
  let ?a = "sample_session (Some (sample_compositor XRT_SUCCESS))
               XR_SESSION_STATE_STOPPING True True True 1"
  let ?b = "sample_session None XR_SESSION_STATE_STOPPING True False False 0"
  let ?c = "sample_session (Some (sample_compositor XRT_SUCCESS))
               XR_SESSION_STATE_FOCUSED True False True 1"
  have a: "is_running ?a" "state ?a = XR_SESSION_STATE_STOPPING"
    "case compositor ?a of None \<Rightarrow> True | Some xc \<Rightarrow> end_session xc \<noteq> XRT_ERROR_IPC_FAILURE"
    by (simp_all add: sample_session_def sample_compositor_def is_running_def)
  have b: "is_running ?b" "state ?b = XR_SESSION_STATE_STOPPING"
    "case compositor ?b of None \<Rightarrow> True | Some xc \<Rightarrow> end_session xc \<noteq> XRT_ERROR_IPC_FAILURE"
    by (simp_all add: sample_session_def is_running_def)
  have c: "is_running ?c"
    "case compositor ?c of None \<Rightarrow> True | Some xc \<Rightarrow> end_session xc \<noteq> XRT_ERROR_IPC_FAILURE"
    by (simp_all add: sample_session_def sample_compositor_def is_running_def)
  let ?f = "sample_session (Some (sample_compositor XRT_ERROR_IPC_FAILURE))
               XR_SESSION_STATE_STOPPING True True True 1"
  have f: "is_running ?f" "state ?f = XR_SESSION_STATE_STOPPING"
    "compositor ?f = Some (sample_compositor XRT_ERROR_IPC_FAILURE)"
    "end_session (sample_compositor XRT_ERROR_IPC_FAILURE) = XRT_ERROR_IPC_FAILURE"
    "events ?f = []"
    by (simp_all add: sample_session_def sample_compositor_def is_running_def)
  have ea: "exiting ?a" "events ?a = []" and eb: "\<not> exiting ?b" "events ?b = []"
    by (simp_all add: sample_session_def)
  show ?thesis
    using oxr_session_end_transitions[OF a, of sample_success_result ?c ?f
        "sample_compositor XRT_ERROR_IPC_FAILURE"]
      oxr_session_end_transitions[OF b, of sample_success_result ?c ?f
        "sample_compositor XRT_ERROR_IPC_FAILURE"] ea eb c f
    by simp
qed







section \<open>Properties of the display timing\<close>

declare latest_frame_loop.simps [simp del]

text \<open>A 64-bit word read as a signed value.\<close>

lemma sint64_cases: "sint (w :: 64 word) = (if uint w < 2 ^ 63 then uint w else uint w - 2 ^ 64)"
proof -
  have b: "0 \<le> uint w" "uint w < 2 ^ 64"
    using uint_bounded[of w] by simp_all
  have "uint w div 2 ^ 63 = (if uint w < 2 ^ 63 then 0 else 1)"
    using b by (auto simp add: div_pos_pos_trivial) 
  then have "bit (uint w) 63 \<longleftrightarrow> 2 ^ 63 \<le> uint w"
    by (simp add: bit_iff_odd)
  then show ?thesis
    using b by (simp add: sint_uint signed_take_bit_eq_take_bit_minus take_bit_int_eq_self)
qed

text \<open>
  The test for a missed frame, in terms of the difference of the two timestamps: the
  frame counts as missed when the actual present time is at least 0.5 ms after the
  desired one, unless the difference is so large that it is within 0.5 ms of
  \<open>2 ^ 64\<close> and reads as a small negative \<open>int64_t\<close>.
\<close>

lemma miss_iff:
  "(a > d \<and> \<not> is_within_half_ms a d) \<longleftrightarrow>
   (500000 \<le> uint a - uint d \<and> uint a - uint d \<le> 2 ^ 64 - 500000)"
proof (cases "d < a")
  case True
  then have "d \<le> a" by simp
  then have u: "uint (a - d) = uint a - uint d"
    using uint_minus_simple_alt[of d a] by simp
  have b: "0 \<le> uint a" "uint a < 2 ^ 64" "0 \<le> uint d" "uint d < 2 ^ 64"
    using uint_bounded[of a] uint_bounded[of d] by simp_all
  have lt: "uint d < uint a" using True by (simp add: word_less_def)
  have s1: "sint (- (500000 :: 64 word)) = - 500000" by simp
  have s2: "sint (500000 :: 64 word) = 500000" by simp
  define k where "k = uint a - uint d"
  have k: "0 < k" "k < 2 ^ 64" using lt b unfolding k_def by linarith+
  have "is_within_half_ms a d \<longleftrightarrow> (- 500000 < sint (a - d) \<and> sint (a - d) < 500000)"
    by (simp only: is_within_half_ms_def is_within_of_each_other_def
        U_TIME_HALF_MS_IN_NS_def s1 s2)
  then have w: "is_within_half_ms a d \<longleftrightarrow>
      (- 500000 < (if k < 2 ^ 63 then k else k - 2 ^ 64) \<and>
       (if k < 2 ^ 63 then k else k - 2 ^ 64) < 500000)"
    unfolding sint64_cases[of "a - d"] u k_def by simp
  have "\<not> is_within_half_ms a d \<longleftrightarrow> (500000 \<le> k \<and> k \<le> 2 ^ 64 - 500000)"
    unfolding w using k by (cases "k < 2 ^ 63") auto
  with True show ?thesis by (simp add: k_def)
next
  case False
  then have "uint a \<le> uint d" by (simp add: word_less_def not_less)
  with False show ?thesis by simp
qed

lemma get_frame_nonneg:
  "0 \<le> fid \<Longrightarrow> length (frames dt) = NUM_FRAMES \<Longrightarrow>
   get_frame debug dt fid = Inr (nat (fid mod 16))"
  by (simp add: get_frame_def NUM_FRAMES_def Let_def nat_less_iff)

lemma latest_frame_loop_returns:
  assumes "length (frames dt) = NUM_FRAMES" "0 \<le> n" "n < 2 ^ 63"
  shows "\<exists>r. latest_frame_loop debug dt st (word_of_int n) cnt = Inr r"
proof (induction "NUM_FRAMES - cnt" arbitrary: cnt)
  case 0
  then show ?case by (subst latest_frame_loop.simps) simp
next
  case (Suc m)
  show ?case
  proof (cases "(word_of_int n :: 64 word) \<ge> of_nat cnt \<and> cnt < NUM_FRAMES")
    case False
    then show ?thesis by (subst latest_frame_loop.simps) auto
  next
    case True
    then have c: "cnt < 16" by (simp add: NUM_FRAMES_def)
    have un: "uint (word_of_int n :: 64 word) = n"
      using assms(2,3) by (simp add: uint_word_of_int take_bit_int_eq_self)
    have "unat (of_nat cnt :: 64 word) = cnt"
      using c by (simp add: unat_of_nat)
    then have uc: "uint (of_nat cnt :: 64 word) = int cnt"
      by (simp only: uint_nat)
    from True have le: "int cnt \<le> n"
      by (simp add: word_le_def un uc)
    from True have "(of_nat cnt :: 64 word) \<le> word_of_int n" by simp
    then have "uint ((word_of_int n :: 64 word) - of_nat cnt) = n - int cnt"
      using uint_minus_simple_alt[of "of_nat cnt :: 64 word" "word_of_int n"] un uc
      by simp
    then have "sint ((word_of_int n :: 64 word) - of_nat cnt) = n - int cnt"
      using le assms(3) by (simp add: sint64_cases)
    then have g: "get_frame debug dt (sint ((word_of_int n :: 64 word) - of_nat cnt)) =
        Inr (nat ((n - int cnt) mod 16))"
      using get_frame_nonneg[of "n - int cnt" dt debug] le assms(1) by simp
    have "\<exists>r. latest_frame_loop debug dt st (word_of_int n) (Suc cnt) = Inr r"
      using Suc.hyps(1)[of "Suc cnt"] Suc.hyps(2) by simp
    with True g show ?thesis
      by (subst latest_frame_loop.simps) auto
  qed
qed

lemma adjust_app_time_missed:
  assumes "500000 \<le> uint (actual_present_time_ns f) - uint (desired_present_time_ns f)"
    and "uint (actual_present_time_ns f) - uint (desired_present_time_ns f) \<le> 2 ^ 64 - 500000"
  shows "app_time_ns (adjust_app_time dt f) =
           min (app_time_ns dt + adjust_missed_ns dt) (app_time_max_ns dt)"
proof -
  have "actual_present_time_ns f > desired_present_time_ns f \<and>
        \<not> is_within_half_ms (actual_present_time_ns f) (desired_present_time_ns f)"
    using assms miss_iff by blast
  then show ?thesis
    by (auto simp add: adjust_app_time_def Let_def min_def)
qed

lemma unat_min_add:
  assumes "unat (a :: 64 word) + unat b < 2 ^ 64"
  shows "unat (min (a + b) c) = min (unat a + unat b) (unat c)"
proof -
  have "unat (a + b) = unat a + unat b"
    using assms unat_add_lem[of a b] by simp
  then show ?thesis
    by (simp add: min_def word_le_nat_alt)
qed

text \<open>
  C3, as stated, fails in two ways. Frame 0 was predicted with the desired present
  time 2 s; the sample passed to \<open>dt_info\<close> names the desired present time 1000 ns
  and the actual present time 2 s: the controller compares with the stored time, sees
  no miss and leaves the application time at 1 ms, where the claim wants 1.4 ms. And
  with the desired present time 0 and the actual present time \<open>2 ^ 64 - 1\<close> the
  signed difference is \<open>- 1\<close>, within half a millisecond, and again nothing changes.
\<close>

theorem dt_info_missed_frame_counterexample:
  "map_sum id app_time_ns
     (dt_info True 5 0 1000 2000000000 0 1000000 (sample_display_timing 2000000000))
     = Inr 1000000
   \<and> map_sum id app_time_ns
     (dt_info True 5 0 0 (- 1) 0 1000000 (sample_display_timing 0)) = Inr 1000000
   \<and> min (app_time_ns (sample_display_timing 0) + adjust_missed_ns (sample_display_timing 0))
         (app_time_max_ns (sample_display_timing 0)) = 1400000"
  by code_simp

text \<open>
  C3, amended. For a frame id in range whose record is in state \<open>SUBMITTED\<close> (the
  assertion of a debug build), when the actual present time of the sample is at least
  0.5 ms, and at most \<open>2 ^ 64\<close> ns less 0.5 ms, after the desired present time stored
  in the frame record: \<open>dt_info\<close> returns and the application time becomes the
  minimum of \<open>app_time_ns + adjust_missed_ns\<close> (in 64-bit unsigned arithmetic) and
  \<open>app_time_max_ns\<close>; when the sum does not overflow this is the minimum of the
  numbers. The step \<open>adjust_missed_ns\<close> and the bound \<open>app_time_max_ns\<close> are left as
  they were, and they are what \<open>u_ft_display_timing_create\<close> has set them to:
  \<open>get_percent_of_time\<close> of the estimated frame period and 4, and of the period and 30
  (the application time starts at \<open>get_percent_of_time\<close> of the period and 10).
\<close>

theorem dt_info_missed_frame:
  assumes "0 \<le> fid" and "length (frames dt) = NUM_FRAMES"
    and "0 \<le> next_frame_id dt" and "next_frame_id dt < 2 ^ 63"
    and "debug \<longrightarrow> f_state (frames dt ! nat (fid mod 16)) = STATE_SUBMITTED"
    and "500000 \<le> uint actual - uint (desired_present_time_ns (frames dt ! nat (fid mod 16)))"
    and "uint actual - uint (desired_present_time_ns (frames dt ! nat (fid mod 16)))
           \<le> 2 ^ 64 - 500000"
  shows "(\<exists>dt'. dt_info debug now fid desired actual earliest margin dt = Inr dt'
           \<and> app_time_ns dt' = min (app_time_ns dt + adjust_missed_ns dt) (app_time_max_ns dt)
           \<and> (unat (app_time_ns dt) + unat (adjust_missed_ns dt) < 2 ^ 64 \<longrightarrow>
                unat (app_time_ns dt') =
                  min (unat (app_time_ns dt) + unat (adjust_missed_ns dt))
                      (unat (app_time_max_ns dt)))
           \<and> adjust_missed_ns dt' = adjust_missed_ns dt
           \<and> app_time_max_ns dt' = app_time_max_ns dt)
         \<and> adjust_missed_ns (u_ft_display_timing_create get_percent_of_time period_ns)
           = get_percent_of_time period_ns 4
         \<and> app_time_max_ns (u_ft_display_timing_create get_percent_of_time period_ns)
           = get_percent_of_time period_ns 30
         \<and> app_time_ns (u_ft_display_timing_create get_percent_of_time period_ns)
           = get_percent_of_time period_ns 10"
proof -
  obtain r where r: "get_latest_frame_with_state_at_least debug dt STATE_INFO = Inr r"
    using latest_frame_loop_returns[OF assms(2,3,4)]
    unfolding get_latest_frame_with_state_at_least_def by blast
  let ?i = "nat (fid mod 16)"
  let ?f = "(frames dt ! ?i)\<lparr>when_infoed_ns := now, actual_present_time_ns := actual,
              earliest_present_time_ns := earliest, present_margin_ns := margin,
              f_state := STATE_INFO\<rparr>"
  let ?dt1 = "dt\<lparr>frames := (frames dt)[?i := ?f]\<rparr>"
  have g: "get_frame debug dt fid = Inr ?i"
    using get_frame_nonneg[OF assms(1,2)] .
  have e: "dt_info debug now fid desired actual earliest margin dt = Inr (adjust_app_time ?dt1 ?f)"
    using r g assms(5) by (simp add: dt_info_def Let_def)
  have m: "app_time_ns (adjust_app_time ?dt1 ?f) =
      min (app_time_ns ?dt1 + adjust_missed_ns ?dt1) (app_time_max_ns ?dt1)"
    by (rule adjust_app_time_missed) (use assms(6,7) in simp_all)
  have k: "adjust_missed_ns (adjust_app_time ?dt1 ?f) = adjust_missed_ns dt"
    "app_time_max_ns (adjust_app_time ?dt1 ?f) = app_time_max_ns dt"
    by (simp_all add: adjust_app_time_def Let_def)
  have c: "adjust_missed_ns (u_ft_display_timing_create get_percent_of_time period_ns)
           = get_percent_of_time period_ns 4
         \<and> app_time_max_ns (u_ft_display_timing_create get_percent_of_time period_ns)
           = get_percent_of_time period_ns 30
         \<and> app_time_ns (u_ft_display_timing_create get_percent_of_time period_ns)
           = get_percent_of_time period_ns 10"
    by (simp add: u_ft_display_timing_create_def)
  show ?thesis
    using e m k c unat_min_add[of "app_time_ns dt" "adjust_missed_ns dt" "app_time_max_ns dt"]
    by simp
qed

theorem dt_info_missed_frame_witness:
  "map_sum id app_time_ns
     (dt_info True 5 0 1000000000 1000600000 0 1000000 (sample_display_timing 1000000000))
     = Inr 1400000
   \<and> map_sum id adjust_missed_ns
     (dt_info True 5 0 1000000000 1000600000 0 1000000 (sample_display_timing 1000000000))
     = Inr 400000
   \<and> map_sum id app_time_max_ns
     (dt_info True 5 0 1000000000 1000600000 0 1000000 (sample_display_timing 1000000000))
     = Inr 3000000
   \<and> adjust_missed_ns (u_ft_display_timing_create sample_percent_of_time 10000000) = 400000
   \<and> app_time_max_ns (u_ft_display_timing_create sample_percent_of_time 10000000) = 3000000"
proof -
  let ?dt = "sample_display_timing 1000000000"
  have f0: "frames ?dt ! 0 =
      zero_frame\<lparr>desired_present_time_ns := 1000000000, f_state := STATE_SUBMITTED\<rparr>"
    by (simp add: sample_display_timing_def NUM_FRAMES_def)
  have h: "(0::int) \<le> 0" "length (frames ?dt) = NUM_FRAMES"
    "0 \<le> next_frame_id ?dt" "next_frame_id ?dt < 2 ^ 63"
    "True \<longrightarrow> f_state (frames ?dt ! nat (0 mod 16)) = STATE_SUBMITTED"
    "500000 \<le> uint (1000600000 :: 64 word)
        - uint (desired_present_time_ns (frames ?dt ! nat (0 mod 16)))"
    "uint (1000600000 :: 64 word)
        - uint (desired_present_time_ns (frames ?dt ! nat (0 mod 16))) \<le> 2 ^ 64 - 500000"
    by (simp_all add: f0) (simp_all add: sample_display_timing_def)
  have v: "app_time_ns ?dt = 1000000" "adjust_missed_ns ?dt = 400000"
    "app_time_max_ns ?dt = 3000000"
    by (simp_all add: sample_display_timing_def u_ft_display_timing_create_def
        sample_percent_of_time_def)
  have p: "sample_percent_of_time 10000000 4 = 400000"
    "sample_percent_of_time 10000000 30 = 3000000"
    by (simp_all add: sample_percent_of_time_def)
  show ?thesis
    using dt_info_missed_frame[OF h, of 5 1000000000 0 1000000 sample_percent_of_time 10000000]
      v p
    by auto
qed

text \<open>
  C8, as stated, fails for release builds: the assertions are compiled out and the mark
  is applied. Frame 0 is in state \<open>SUBMITTED\<close> with \<open>when_woke_ns = 0\<close>; a
  \<open>WAKE_UP\<close> mark at time 99 puts it in state \<open>WOKE\<close> with \<open>when_woke_ns = 99\<close>.
\<close>

theorem dt_mark_point_out_of_phase_counterexample:
  "f_state (frames (sample_display_timing 0) ! 0) = STATE_SUBMITTED
   \<and> when_woke_ns (frames (sample_display_timing 0) ! 0) = 0
   \<and> map_sum id (\<lambda>dt'. (f_state (frames dt' ! 0), when_woke_ns (frames dt' ! 0)))
        (dt_mark_point False U_TIMING_POINT_WAKE_UP 0 99 (sample_display_timing 0))
       = Inr (STATE_WOKE, 99)"
  by code_simp

text \<open>
  C8, amended. For a mark of one of the three points on a frame (id in range) that is
  not in the state the point follows: in a debug build the call fails its assertion;
  in a release build the call returns, having set the frame's state to the state of
  the mark and the point's timestamp to \<open>when_ns\<close>. A point value other than
  the three fails the assertion in a debug build and changes nothing in a release
  build.
\<close>

theorem dt_mark_point_out_of_phase:
  assumes "0 \<le> fid" and "length (frames dt) = NUM_FRAMES"
    and "point \<noteq> U_TIMING_POINT_OTHER"
    and "point_state_before point \<noteq> Some (f_state (frames dt ! nat (fid mod 16)))"
  shows "dt_mark_point True point fid when_ns dt = Inl ASSERT_FAILED
       \<and> (\<exists>dt'. dt_mark_point False point fid when_ns dt = Inr dt'
              \<and> Some (f_state (frames dt' ! nat (fid mod 16))) = point_state_after point
              \<and> point_timestamp point (frames dt' ! nat (fid mod 16)) = Some when_ns)
       \<and> dt_mark_point True U_TIMING_POINT_OTHER fid when_ns dt = Inl ASSERT_FAILED
       \<and> dt_mark_point False U_TIMING_POINT_OTHER fid when_ns dt = Inr dt"
proof -
  have i: "nat (fid mod 16) < length (frames dt)"
    using assms(1,2) by (simp add: NUM_FRAMES_def nat_less_iff)
  show ?thesis
    using assms(3,4) i
    by (cases point)
      (simp_all add: dt_mark_point_def get_frame_nonneg[OF assms(1,2)] Let_def)
qed

theorem dt_mark_point_out_of_phase_witness:
  "dt_mark_point True U_TIMING_POINT_WAKE_UP 0 99 (sample_display_timing 0) = Inl ASSERT_FAILED
   \<and> (\<exists>dt'. dt_mark_point False U_TIMING_POINT_WAKE_UP 0 99 (sample_display_timing 0) = Inr dt'
          \<and> f_state (frames dt' ! 0) = STATE_WOKE \<and> when_woke_ns (frames dt' ! 0) = 99)"
proof -
  let ?dt = "sample_display_timing 0"
  have f0: "frames ?dt ! 0 =
      zero_frame\<lparr>desired_present_time_ns := 0, f_state := STATE_SUBMITTED\<rparr>"
    by (simp add: sample_display_timing_def NUM_FRAMES_def)
  have h: "(0::int) \<le> 0" "length (frames ?dt) = NUM_FRAMES"
    "U_TIMING_POINT_WAKE_UP \<noteq> U_TIMING_POINT_OTHER"
    "point_state_before U_TIMING_POINT_WAKE_UP \<noteq> Some (f_state (frames ?dt ! nat (0 mod 16)))"
    by (simp_all add: f0) (simp_all add: sample_display_timing_def)
  show ?thesis
    using dt_mark_point_out_of_phase[OF h, of 99] by simp
qed

text \<open>
  A sample that is not a miss and whose present margin is one more than
  \<open>margin_ns + adjust_non_miss_ns\<close> takes \<open>adjust_non_miss_ns\<close> off the application
  time, whatever the application time is.
\<close>

lemma adjust_app_time_only_app_time:
  "adjust_app_time dt f = dt\<lparr>app_time_ns := app_time_ns (adjust_app_time dt f)\<rparr>"
  by (simp add: adjust_app_time_def Let_def)

lemma adjust_app_time_down:
  assumes nm: "\<not> (actual_present_time_ns f > desired_present_time_ns f \<and>
          \<not> is_within_half_ms (actual_present_time_ns f) (desired_present_time_ns f))"
    and pm: "present_margin_ns f = margin_ns dt + adjust_non_miss_ns dt + 1"
    and b: "uint (margin_ns dt) + uint (adjust_non_miss_ns dt) < 2 ^ 63 - 1"
  shows "adjust_app_time dt f = dt\<lparr>app_time_ns := app_time_ns dt - adjust_non_miss_ns dt\<rparr>"
    and "uint (present_margin_ns f) = uint (margin_ns dt) + uint (adjust_non_miss_ns dt) + 1"
proof -
  let ?m = "margin_ns dt" and ?r = "adjust_non_miss_ns dt"
  have r0: "0 \<le> uint ?r" "0 \<le> uint ?m" by simp_all
  have b': "uint ?m + uint ?r < 9223372036854775807" using b by simp
  have "(uint ?r + 1) mod 18446744073709551616 = uint ?r + 1"
    using b' r0 by (intro mod_pos_pos_trivial) linarith+
  then have u1: "uint (?r + 1) = uint ?r + 1"
    by (simp add: uint_word_ariths)
  have "(uint ?m + uint ?r + 1) mod 18446744073709551616 = uint ?m + uint ?r + 1"
    using b' r0 by (intro mod_pos_pos_trivial) linarith+
  then have u2: "uint (?m + ?r + 1) = uint ?m + uint ?r + 1"
    by (simp add: uint_word_ariths mod_simps)
  show pmu: "uint (present_margin_ns f) = uint ?m + uint ?r + 1"
    using pm u2 by simp
  have d: "present_margin_ns f - ?m = ?r + 1" using pm by simp
  have "uint ?r + 1 < 9223372036854775808" using b' r0 by linarith
  then have s1: "sint (?r + 1) = uint ?r + 1" using u1 by (simp add: sint64_cases)
  have "uint ?r < 9223372036854775808" using b' r0 by linarith
  then have s2: "sint ?r = uint ?r" by (simp add: sint64_cases)
  have nw: "\<not> is_within_of_each_other (present_margin_ns f) ?m ?r"
    by (simp add: is_within_of_each_other_def d s1 s2)
  have "uint ?m < uint (present_margin_ns f)"
    using pmu r0 by linarith
  then have gt: "present_margin_ns f > ?m"
    by (simp add: word_less_def)
  show "adjust_app_time dt f = dt\<lparr>app_time_ns := app_time_ns dt - ?r\<rparr>"
    using nm nw gt by (auto simp add: adjust_app_time_def)
qed

lemma foldl_adjust_app_time_down:
  assumes nm: "\<not> (actual_present_time_ns f > desired_present_time_ns f \<and>
          \<not> is_within_half_ms (actual_present_time_ns f) (desired_present_time_ns f))"
    and pm: "present_margin_ns f = margin_ns dt + adjust_non_miss_ns dt + 1"
    and b: "uint (margin_ns dt) + uint (adjust_non_miss_ns dt) < 2 ^ 63 - 1"
  shows "foldl adjust_app_time dt (replicate n f) =
           dt\<lparr>app_time_ns := app_time_ns dt - of_nat n * adjust_non_miss_ns dt\<rparr>"
  using pm b
proof (induction n arbitrary: dt)
  case 0
  then show ?case by simp
next
  case (Suc n)
  let ?dt' = "dt\<lparr>app_time_ns := app_time_ns dt - adjust_non_miss_ns dt\<rparr>"
  have step: "adjust_app_time dt f = ?dt'"
    using adjust_app_time_down(1)[OF nm Suc.prems] .
  have "foldl adjust_app_time ?dt' (replicate n f) =
          ?dt'\<lparr>app_time_ns := app_time_ns ?dt' - of_nat n * adjust_non_miss_ns ?dt'\<rparr>"
    using Suc.prems by (intro Suc.IH) simp_all
  then show ?case
    by (simp add: step algebra_simps)
qed

lemma uint_sub_wrap:
  "(a :: 64 word) < b \<Longrightarrow> uint (a - b) = uint a - uint b + 2 ^ 64"
  by (simp add: uint_sub_if' word_less_def)

lemma uint_sub_multiple:
  fixes a r :: "64 word"
  assumes "r \<noteq> 0"
  shows "uint (a - of_nat (unat a div unat r) * r) = uint a mod uint r"
proof -
  let ?n = "unat a div unat r"
  have r0: "0 < unat r" using assms by (simp add: unat_gt_0)
  have le: "?n * unat r \<le> unat a" by simp
  have a64: "unat a < 2 ^ 64" using unsigned_less[of a, where 'a = nat] by simp
  have n64: "?n < 2 ^ 64" using a64 by (meson div_le_dividend le_less_trans)
  have un: "unat (of_nat ?n :: 64 word) = ?n"
    using n64 by (simp add: unat_of_nat)
  have "?n * unat r < 2 ^ 64"
    using le a64 by linarith
  then have "unat (of_nat ?n :: 64 word) * unat r < 2 ^ LENGTH(64)"
    by (simp add: un)
  then have um: "unat (of_nat ?n * r) = ?n * unat r"
    using unat_mult_lem[of "of_nat ?n :: 64 word" r] un by simp
  then have "of_nat ?n * r \<le> a"
    using le by (simp add: word_le_nat_alt)
  then have "unat (a - of_nat ?n * r) = unat a - ?n * unat r"
    using um by (simp add: unat_sub)
  also have "\<dots> = unat a mod unat r"
    by (simp only: minus_div_mult_eq_mod)
  finally have e: "unat (a - of_nat ?n * r) = unat a mod unat r" .
  show ?thesis
    by (simp only: uint_nat e zmod_int)
qed


text \<open>
  C9. Whenever the step \<open>adjust_non_miss_ns\<close> is not 0 (and \<open>margin_ns\<close> plus the
  step leaves room for a larger present margin below \<open>2 ^ 63\<close>), there is a sequence
  of samples, none a miss and each with a present margin above
  \<open>margin_ns + adjust_non_miss_ns\<close>, after which the application time is below the
  step, and the next such sample makes the subtraction wrap: the new application time
  is the old one minus the step plus \<open>2 ^ 64\<close>. The miss branch, in contrast, never
  leaves the application time above \<open>app_time_max_ns\<close>.
\<close>

theorem adjust_app_time_wraps_below_zero:
  assumes "adjust_non_miss_ns dt \<noteq> 0"
    and "uint (margin_ns dt) + uint (adjust_non_miss_ns dt) < 2 ^ 63 - 1"
  shows "(\<exists>fs f.
           (\<forall>g \<in> set (fs @ [f]).
              \<not> (actual_present_time_ns g > desired_present_time_ns g \<and>
                 \<not> is_within_half_ms (actual_present_time_ns g) (desired_present_time_ns g)) \<and>
              uint (present_margin_ns g) > uint (margin_ns dt) + uint (adjust_non_miss_ns dt))
           \<and> app_time_ns (foldl adjust_app_time dt fs) < adjust_non_miss_ns dt
           \<and> app_time_ns (adjust_app_time (foldl adjust_app_time dt fs) f) =
               app_time_ns (foldl adjust_app_time dt fs) - adjust_non_miss_ns dt
           \<and> uint (app_time_ns (adjust_app_time (foldl adjust_app_time dt fs) f)) =
               uint (app_time_ns (foldl adjust_app_time dt fs))
                 - uint (adjust_non_miss_ns dt) + 2 ^ 64)
       \<and> (actual_present_time_ns g > desired_present_time_ns g \<and>
            \<not> is_within_half_ms (actual_present_time_ns g) (desired_present_time_ns g) \<longrightarrow>
            app_time_ns (adjust_app_time dt g) \<le> app_time_max_ns dt)"
proof -
  let ?r = "adjust_non_miss_ns dt"
  define f where "f = zero_frame\<lparr>present_margin_ns := margin_ns dt + ?r + 1\<rparr>"
  define n where "n = unat (app_time_ns dt) div unat ?r"
  define dt1 where "dt1 = foldl adjust_app_time dt (replicate n f)"
  have nm: "\<not> (actual_present_time_ns f > desired_present_time_ns f \<and>
          \<not> is_within_half_ms (actual_present_time_ns f) (desired_present_time_ns f))"
    by (simp add: f_def zero_frame_def)
  have pm: "present_margin_ns f = margin_ns dt + ?r + 1"
    by (simp add: f_def)
  have dt1: "dt1 = dt\<lparr>app_time_ns := app_time_ns dt - of_nat n * ?r\<rparr>"
    unfolding dt1_def using foldl_adjust_app_time_down[OF nm pm assms(2)] .
  have "uint (app_time_ns dt1) = uint (app_time_ns dt) mod uint ?r"
    unfolding dt1 n_def using uint_sub_multiple[OF assms(1)] by simp
  moreover have "0 < uint ?r"
    using assms(1) uint_0_iff[of ?r] uint_ge_0[of ?r] by linarith
  ultimately have "uint (app_time_ns dt1) < uint ?r"
    by simp
  then have lt: "app_time_ns dt1 < ?r"
    by (simp add: word_less_def)
  have pm1: "present_margin_ns f = margin_ns dt1 + adjust_non_miss_ns dt1 + 1"
    and b1: "uint (margin_ns dt1) + uint (adjust_non_miss_ns dt1) < 2 ^ 63 - 1"
    using pm assms(2) by (simp_all add: dt1)
  have step: "adjust_app_time dt1 f = dt1\<lparr>app_time_ns := app_time_ns dt1 - ?r\<rparr>"
    using adjust_app_time_down(1)[OF nm pm1 b1] by (simp add: dt1)
  have big: "uint (present_margin_ns f) > uint (margin_ns dt) + uint ?r"
    using adjust_app_time_down(2)[OF nm pm assms(2)] by simp
  have all: "\<forall>g \<in> set (replicate n f @ [f]).
              \<not> (actual_present_time_ns g > desired_present_time_ns g \<and>
                 \<not> is_within_half_ms (actual_present_time_ns g) (desired_present_time_ns g)) \<and>
              uint (present_margin_ns g) > uint (margin_ns dt) + uint ?r"
    using nm big by auto
  have first: "\<exists>fs f.
           (\<forall>g \<in> set (fs @ [f]).
              \<not> (actual_present_time_ns g > desired_present_time_ns g \<and>
                 \<not> is_within_half_ms (actual_present_time_ns g) (desired_present_time_ns g)) \<and>
              uint (present_margin_ns g) > uint (margin_ns dt) + uint ?r)
           \<and> app_time_ns (foldl adjust_app_time dt fs) < ?r
           \<and> app_time_ns (adjust_app_time (foldl adjust_app_time dt fs) f) =
               app_time_ns (foldl adjust_app_time dt fs) - ?r
           \<and> uint (app_time_ns (adjust_app_time (foldl adjust_app_time dt fs) f)) =
               uint (app_time_ns (foldl adjust_app_time dt fs)) - uint ?r + 2 ^ 64"
    apply (rule exI[of _ "replicate n f"])
    apply (rule exI[of _ f])
    using all lt step uint_sub_wrap[OF lt]
    unfolding dt1_def[symmetric] by simp
  have second: "app_time_ns (adjust_app_time dt g) \<le> app_time_max_ns dt"
    if "actual_present_time_ns g > desired_present_time_ns g \<and>
            \<not> is_within_half_ms (actual_present_time_ns g) (desired_present_time_ns g)"
    using that by (auto simp add: adjust_app_time_def Let_def)
  show ?thesis
    using first second by blast
qed

theorem adjust_app_time_wraps_below_zero_witness:
  "(\<exists>fs f.
      (\<forall>g \<in> set (fs @ [f]).
         \<not> (actual_present_time_ns g > desired_present_time_ns g \<and>
            \<not> is_within_half_ms (actual_present_time_ns g) (desired_present_time_ns g)) \<and>
         uint (present_margin_ns g) >
           uint (margin_ns (sample_display_timing 0))
             + uint (adjust_non_miss_ns (sample_display_timing 0)))
      \<and> app_time_ns (foldl adjust_app_time (sample_display_timing 0) fs)
            < adjust_non_miss_ns (sample_display_timing 0)
      \<and> uint (app_time_ns
                (adjust_app_time (foldl adjust_app_time (sample_display_timing 0) fs) f)) =
          uint (app_time_ns (foldl adjust_app_time (sample_display_timing 0) fs))
            - uint (adjust_non_miss_ns (sample_display_timing 0)) + 2 ^ 64)
   \<and> app_time_ns (foldl adjust_app_time (sample_display_timing 0)
          (replicate 5 (zero_frame\<lparr>present_margin_ns := 2000000\<rparr>))) = 0
   \<and> app_time_ns (foldl adjust_app_time (sample_display_timing 0)
          (replicate 6 (zero_frame\<lparr>present_margin_ns := 2000000\<rparr>))) =
       18446744073709351616"
proof -
  let ?dt = "sample_display_timing 0"
  have v: "adjust_non_miss_ns ?dt = 200000" "margin_ns ?dt = 1000000"
    by (simp_all add: sample_display_timing_def u_ft_display_timing_create_def
        sample_percent_of_time_def U_TIME_1MS_IN_NS_def)
  have h: "adjust_non_miss_ns ?dt \<noteq> 0"
    "uint (margin_ns ?dt) + uint (adjust_non_miss_ns ?dt) < 2 ^ 63 - 1"
    by (simp_all add: v)
  have ex: "app_time_ns (foldl adjust_app_time ?dt
          (replicate 5 (zero_frame\<lparr>present_margin_ns := 2000000\<rparr>))) = 0"
    "app_time_ns (foldl adjust_app_time ?dt
          (replicate 6 (zero_frame\<lparr>present_margin_ns := 2000000\<rparr>))) =
       18446744073709351616"
    by code_simp+
  show ?thesis
    using adjust_app_time_wraps_below_zero[OF h] ex by blast
qed

section \<open>Properties of the render timing helper\<close>

text \<open>
  When the loop returns a value, the value is greater than \<open>then_ns\<close>; and it does
  return one when the period is not 0 and \<open>then_ns\<close> plus the period does not
  overflow.
\<close>

lemma plus_period_loop_gt:
  assumes "plus_period_loop debug per then_ns val = Some (Inr v)"
  shows "then_ns < v"
proof -
  have "\<forall>w. (Inr v :: timing_error + 64 word) = Inr w \<longrightarrow> then_ns < w"
    by (rule plus_period_loop.raw_induct
          [where P = "\<lambda>debug per then_ns val y. \<forall>v. y = Inr v \<longrightarrow> then_ns < v",
           OF _ assms])
       (auto split: if_splits simp: not_le)
  then show ?thesis by simp
qed

lemma plus_period_loop_returns:
  assumes "per \<noteq> 0" and "unat then_ns + unat per < 2 ^ 64"
  shows "\<exists>v. plus_period_loop debug per then_ns val = Some (Inr v)"
proof (induction "Suc (unat then_ns) - unat val" arbitrary: val rule: less_induct)
  case less
  show ?case
  proof (cases "val \<le> then_ns")
    case False
    then show ?thesis by (subst plus_period_loop.simps) simp
  next
    case True
    then have le: "unat val \<le> unat then_ns" by (simp add: word_le_nat_alt)
    then have "unat val + unat per < 2 ^ LENGTH(64)" using assms(2) by simp
    then have u: "unat (val + per) = unat val + unat per"
      using unat_add_lem[of val per] by simp
    have p: "0 < unat per" using assms(1) by (simp add: unat_gt_0)
    have nz: "val + per \<noteq> 0"
      using u p unat_gt_0[of "val + per"] by simp
    have "Suc (unat then_ns) - unat (val + per) < Suc (unat then_ns) - unat val"
      using u p le by simp
    then obtain v where "plus_period_loop debug per then_ns (val + per) = Some (Inr v)"
      using less by blast
    with True nz show ?thesis
      by (subst plus_period_loop.simps) simp
  qed
qed

lemma new_samples_last_returned:
  "last_returned (new_samples urth smps) = last_returned urth"
  unfolding new_samples_def
  by (induction smps arbitrary: urth) (simp_all add: u_rt_helper_new_sample_def split: prod.splits)

lemma u_rt_helper_predict_last_returned:
  assumes "u_rt_helper_predict debug now1 now2 urth = Some (Inr (out, urth'))"
  shows "last_returned urth' = predicted_display_time out"
    and "last_returned urth < predicted_display_time out"
    and "now1 < predicted_display_time out"
proof -
  let ?at = "if now1 < last_returned urth then last_returned urth else now1"
  from assms obtain p where
    l: "plus_period_loop debug (period urth) ?at (last_input urth) = Some (Inr p)"
    and o: "predicted_display_time out = p" and r: "last_returned urth' = p"
    by (auto simp add: u_rt_helper_predict_def Let_def
        get_last_input_plus_period_at_least_greater_then_def
        split: option.splits sum.splits if_splits)
  from plus_period_loop_gt[OF l] have "?at < p" .
  then show "last_returned urth < predicted_display_time out"
    and "now1 < predicted_display_time out"
    using o by (auto split: if_splits)
  show "last_returned urth' = predicted_display_time out" using o r by simp
qed


text \<open>
  A helper that has not been sent a sample has period 0: in a debug build the first
  prediction fails the assertion of the loop (without assertions the loop does not
  end).
\<close>

lemma u_rt_helper_predict_before_first_sample:
  "u_rt_helper_predict True now now' (u_rt_helper_init n) = Some (Inl ASSERT_FAILED)"
  by (simp add: u_rt_helper_predict_def u_rt_helper_init_def u_rt_helper_client_clear_def
      get_last_input_plus_period_at_least_greater_then_def Let_def
      plus_period_loop.simps[of True 0 now 0])

text \<open>
  C4. Of two consecutive calls of \<open>u_rt_helper_predict\<close> on one helper that both
  return, with any list of new samples broadcast in between, the later returns a
  predicted display time greater than (so not less than) the earlier. And a call does
  return a prediction when the period is not 0, the larger of the clock value and the
  last returned time plus the period does not overflow, and the ring slot of the new
  frame id is free.
\<close>

theorem u_rt_helper_predict_non_decreasing:
  "(u_rt_helper_predict debug1 now1 now1' urth0 = Some (Inr (out1, urth1)) \<and>
    u_rt_helper_predict debug2 now2 now2' (new_samples urth1 smps) = Some (Inr (out2, urth2))
      \<longrightarrow> predicted_display_time out1 \<le> predicted_display_time out2 \<and>
          predicted_display_time out1 < predicted_display_time out2)
   \<and> (period urth \<noteq> 0 \<and>
      unat (max now (last_returned urth)) + unat (period urth) < 2 ^ 64 \<and>
      rt_frame_id (rt_frames urth ! rt_index urth (frame_counter urth + 1)) = - 1 \<and>
      rt_state (rt_frames urth ! rt_index urth (frame_counter urth + 1)) = U_RT_READY
      \<longrightarrow> (\<exists>out urth'. u_rt_helper_predict debug now now' urth = Some (Inr (out, urth'))))"
proof (intro conjI impI)
  assume a: "u_rt_helper_predict debug1 now1 now1' urth0 = Some (Inr (out1, urth1)) \<and>
    u_rt_helper_predict debug2 now2 now2' (new_samples urth1 smps) = Some (Inr (out2, urth2))"
  have "last_returned (new_samples urth1 smps) = predicted_display_time out1"
    using u_rt_helper_predict_last_returned(1)[of debug1 now1 now1' urth0 out1 urth1] a
    by (simp add: new_samples_last_returned)
  then show lt: "predicted_display_time out1 < predicted_display_time out2"
    using u_rt_helper_predict_last_returned(2)
            [of debug2 now2 now2' "new_samples urth1 smps" out2 urth2] a
    by simp
  then show "predicted_display_time out1 \<le> predicted_display_time out2"
    by simp
next
  assume b: "period urth \<noteq> 0 \<and>
      unat (max now (last_returned urth)) + unat (period urth) < 2 ^ 64 \<and>
      rt_frame_id (rt_frames urth ! rt_index urth (frame_counter urth + 1)) = - 1 \<and>
      rt_state (rt_frames urth ! rt_index urth (frame_counter urth + 1)) = U_RT_READY"
  obtain v where v: "plus_period_loop debug (period urth) (max now (last_returned urth))
      (last_input urth) = Some (Inr v)"
    using plus_period_loop_returns[of "period urth" "max now (last_returned urth)" debug
        "last_input urth"] b by blast
  show "\<exists>out urth'. u_rt_helper_predict debug now now' urth = Some (Inr (out, urth'))"
  proof (cases "now < last_returned urth")
    case True
    then have "max now (last_returned urth) = last_returned urth" by simp
    with v True b show ?thesis
      by (simp add: u_rt_helper_predict_def Let_def rt_index_def
          get_last_input_plus_period_at_least_greater_then_def)
  next
    case False
    then have "max now (last_returned urth) = now" by (simp add: max_def)
    with v False b show ?thesis
      by (simp add: u_rt_helper_predict_def Let_def rt_index_def
          get_last_input_plus_period_at_least_greater_then_def)
  qed
qed

theorem u_rt_helper_predict_non_decreasing_witness:
  "\<exists>out1 urth1 out2 urth2.
     u_rt_helper_predict True 1050 1051 sample_rt_helper = Some (Inr (out1, urth1)) \<and>
     u_rt_helper_predict True 1060 1061 (new_samples urth1 [(1200, 0, 100)])
       = Some (Inr (out2, urth2)) \<and>
     predicted_display_time out1 = 1100 \<and> predicted_display_time out2 = 1200 \<and>
     predicted_display_time out1 < predicted_display_time out2"
proof -
  let ?f = "\<lparr>predicted = 0, wait_woke = 0, begin_ns = 0, end_frame = 0,
             rt_frame_id = - 1, rt_state = U_RT_READY\<rparr>"
  let ?f1 = "\<lparr>predicted = 1051, wait_woke = 0, begin_ns = 0, end_frame = 0,
             rt_frame_id = 1, rt_state = U_RT_PREDICTED\<rparr>"
  let ?f2 = "\<lparr>predicted = 1061, wait_woke = 0, begin_ns = 0, end_frame = 0,
             rt_frame_id = 2, rt_state = U_RT_PREDICTED\<rparr>"
  let ?o1 = "\<lparr>out_frame_id = 1, predicted_display_time = 1100, wake_up_time = 1000,
              predicted_display_period = 100, min_display_period = 100\<rparr>"
  let ?o2 = "\<lparr>out_frame_id = 2, predicted_display_time = 1200, wake_up_time = 1100,
              predicted_display_period = 100, min_display_period = 100\<rparr>"
  let ?u1 = "\<lparr>rt_frames = [?f, ?f1], last_input = 1000, last_returned = 1100,
              period = 100, extra = 0, frame_counter = 1\<rparr>"
  let ?u2 = "\<lparr>rt_frames = [?f2, ?f1], last_input = 1200, last_returned = 1200,
              period = 100, extra = 0, frame_counter = 2\<rparr>"
  have e1: "u_rt_helper_predict True 1050 1051 sample_rt_helper = Some (Inr (?o1, ?u1))"
    by code_simp
  have e2: "u_rt_helper_predict True 1060 1061 (new_samples ?u1 [(1200, 0, 100)])
              = Some (Inr (?o2, ?u2))"
    by code_simp
  have "predicted_display_time ?o1 < predicted_display_time ?o2"
    using u_rt_helper_predict_non_decreasing
            [of True 1050 1051 sample_rt_helper ?o1 ?u1 True 1060 1061 "[(1200, 0, 100)]"
                ?o2 ?u2]
      e1 e2 by blast
  with e1 e2 show ?thesis
    by (intro exI[of _ ?o1] exI[of _ ?u1] exI[of _ ?o2] exI[of _ ?u2]) simp
qed

end
